theory Spec2Isabelle
  imports Complex_Main
begin

unbundle bit_operations_syntax

section \<open>The scanner's state\<close>

text \<open>
  The program is a Python 2 script: one class \<^verbatim>\<open>ISOBMFF\<close> that walks the boxes of an
  ISO base media file and prints what it finds, and three module-level helpers
  (\<^verbatim>\<open>ipush\<close>, \<^verbatim>\<open>ipop\<close>, \<^verbatim>\<open>iprint\<close>) around one global indentation counter.

  A Python 2 \<^verbatim>\<open>str\<close> is a byte string, so file contents, four-character codes and
  names are values of type \<^typ>\<open>string\<close>; Python integers are unbounded, so every
  number read from the file is an \<^typ>\<open>int\<close>.

  The exceptions the script can meet are values of type \<open>error\<close>:
  \<^item> \<open>StructError\<close>: \<^verbatim>\<open>struct.unpack\<close> was handed fewer bytes than its format needs
    (what a fixed-width read does at the end of the file);
  \<^item> \<open>IndexError\<close>: \<^verbatim>\<open>self.file.read(1)[0]\<close> on an empty string;
  \<^item> \<open>IOError\<close>: \<^verbatim>\<open>scan\<close> without an open file, or a seek to an impossible position;
  \<^item> \<open>OverflowError\<close>: a seek offset or read length outside the signed 64-bit range
    of the C library;
  \<^item> \<open>AttributeError\<close>: a method call on \<^verbatim>\<open>self.file\<close> while it is \<^verbatim>\<open>None\<close>;
  \<^item> \<open>EOFError\<close>: the exception the scanning loops catch.
  An exception does not undo what was printed or read before it, so an error carries the
  state in which it was raised.

  What the script prints is recorded, not rendered: a call \<^verbatim>\<open>iprint(fmt % args)\<close> appends
  the current indentation, the format string and the arguments to \<open>out\<close>; a bare
  \<^verbatim>\<open>print\<close> appends a \<open>Plain\<close> line. Format strings are kept as in the source except that
  the apostrophes around \<^verbatim>\<open>%s\<close> are left out, and \<^verbatim>\<open>'version = ' + str(version)\<close> is
  written as the format \<^verbatim>\<open>version = %s\<close>. Tuples printed with \<^verbatim>\<open>str\<close> are \<open>PTuple\<close>, and
  the one floating-point value printed (an \<^verbatim>\<open>int16\<close> divided by \<^verbatim>\<open>16.0\<close>, which is exact
  in binary floating point) is the rational \<open>PFloat\<close>.

  The record \<open>isobmff\<close> is the instance together with the module's global: \<open>fileobj\<close>
  is \<^verbatim>\<open>self.file\<close> (\<open>None\<close>, or the bytes of the opened file), \<open>pos\<close> the position of
  that file object, \<open>filesize\<close> is \<^verbatim>\<open>self.filesize\<close>, \<open>indent\<close> the global counter.
  The attribute \<^verbatim>\<open>self.filename\<close> is never read and is left out.
\<close>

datatype error = StructError | IndexError | IOError | OverflowError | EOFError | AttributeError

datatype pyval = PInt int | PStr string | PTuple "int list" | PFloat rat

datatype line = Indented int string "pyval list" | Plain string

record isobmff =
  fileobj :: "string option"
  pos :: nat
  filesize :: int
  indent :: int
  out :: "line list"

type_synonym 'a res = "(error \<times> isobmff) + ('a \<times> isobmff)"

text \<open>
  A method is a function from the state to either an error or a result, each with the
  state reached. \<open>bind\<close> sequences two of them and stops at the first error, \<open>ret\<close>
  returns a value, \<open>lift\<close> runs a step that cannot fail.
\<close>

definition bind :: "(isobmff \<Rightarrow> 'a res) \<Rightarrow> ('a \<Rightarrow> isobmff \<Rightarrow> 'b res) \<Rightarrow> isobmff \<Rightarrow> 'b res" where
  "bind m f s = (case m s of Inl e \<Rightarrow> Inl e | Inr (x, s') \<Rightarrow> f x s')"

definition ret :: "'a \<Rightarrow> isobmff \<Rightarrow> 'a res" where
  "ret x s = Inr (x, s)"

definition lift :: "(isobmff \<Rightarrow> isobmff) \<Rightarrow> isobmff \<Rightarrow> unit res" where
  "lift f s = Inr ((), f s)"

subsection \<open>Indented printing\<close>

definition ipush :: "isobmff \<Rightarrow> isobmff" where
  "ipush s = s\<lparr>indent := indent s + 1\<rparr>"

definition ipop :: "isobmff \<Rightarrow> isobmff" where
  "ipop s = (if indent s > 0 then s\<lparr>indent := indent s - 1\<rparr> else s)"

definition iprint :: "string \<Rightarrow> pyval list \<Rightarrow> isobmff \<Rightarrow> isobmff" where
  "iprint fmt args s = s\<lparr>out := out s @ [Indented (indent s) fmt args]\<rparr>"

definition print_plain :: "string \<Rightarrow> isobmff \<Rightarrow> isobmff" where
  "print_plain msg s = s\<lparr>out := out s @ [Plain msg]\<rparr>"

subsection \<open>The file object\<close>

text \<open>
  \<open>ISOBMFF\<close> is the freshly constructed instance, \<open>open_file\<close> and \<open>close\<close> are the
  methods \<^verbatim>\<open>open\<close> and \<^verbatim>\<open>close\<close> (the bytes stand for the file that the name denotes).

  \<^verbatim>\<open>file.read(n)\<close> returns at most \<open>n\<close> bytes, fewer at the end of the file, and
  everything up to the end of the file when \<open>n\<close> is negative; the position advances by
  what was returned. \<^verbatim>\<open>file.seek(n, os.SEEK_CUR)\<close> moves the position by \<open>n\<close>, also beyond
  the end of the file, and fails on a negative target. Offsets and lengths pass through a
  signed 64-bit C integer. Running out of memory is not modelled.
\<close>

definition ISOBMFF :: isobmff where
  "ISOBMFF = \<lparr>fileobj = None, pos = 0, filesize = 0, indent = 0, out = []\<rparr>"

definition open_file :: "string \<Rightarrow> isobmff \<Rightarrow> isobmff" where
  "open_file bytes s = s\<lparr>fileobj := Some bytes, filesize := int (length bytes), pos := 0\<rparr>"

definition close :: "isobmff \<Rightarrow> isobmff" where
  "close s = s\<lparr>fileobj := None, filesize := 0\<rparr>"

definition file_tell :: "isobmff \<Rightarrow> int res" where
  "file_tell s =
     (case fileobj s of
        None \<Rightarrow> Inl (AttributeError, s)
      | Some b \<Rightarrow> Inr (int (pos s), s))"

definition file_read :: "int \<Rightarrow> isobmff \<Rightarrow> string res" where
  "file_read n s =
     (case fileobj s of
        None \<Rightarrow> Inl (AttributeError, s)
      | Some b \<Rightarrow>
          if n < - (2 ^ 63) \<or> 2 ^ 63 - 1 < n then Inl (OverflowError, s)
          else (let rest = drop (pos s) b;
                    d = (if n < 0 then rest else take (nat n) rest)
                in Inr (d, s\<lparr>pos := pos s + length d\<rparr>)))"

definition file_seek_cur :: "int \<Rightarrow> isobmff \<Rightarrow> unit res" where
  "file_seek_cur n s =
     (case fileobj s of
        None \<Rightarrow> Inl (AttributeError, s)
      | Some b \<Rightarrow>
          if n < - (2 ^ 63) \<or> 2 ^ 63 - 1 < n then Inl (OverflowError, s)
          else if int (pos s) + n < 0 \<or> 2 ^ 63 - 1 < int (pos s) + n then Inl (IOError, s)
          else Inr ((), s\<lparr>pos := nat (int (pos s) + n)\<rparr>))"

definition file_seek_set :: "int \<Rightarrow> isobmff \<Rightarrow> unit res" where
  "file_seek_set n s =
     (case fileobj s of
        None \<Rightarrow> Inl (AttributeError, s)
      | Some b \<Rightarrow>
          if n < - (2 ^ 63) \<or> 2 ^ 63 - 1 < n then Inl (OverflowError, s)
          else if n < 0 then Inl (IOError, s)
          else Inr ((), s\<lparr>pos := nat n\<rparr>))"

subsection \<open>Fixed-width reads\<close>

text \<open>
  \<open>be_uint\<close> and \<open>be_int\<close> are the big-endian unsigned and two's complement readings
  of a byte string; \<open>unpack n conv\<close> is \<^verbatim>\<open>struct.unpack\<close> for a format of \<open>n\<close> bytes, which
  raises \<^verbatim>\<open>struct.error\<close> on any other length; \<open>fields k w conv\<close> cuts \<open>k\<close> fields
  of \<open>w\<close> bytes. \<open>scan_matrix\<close> is the expression
  \<^verbatim>\<open>struct.unpack('>9l', self.file.read(9*4))\<close> that two decoders share.
\<close>

definition be_uint :: "string \<Rightarrow> int" where
  "be_uint d = foldl (\<lambda>a c. a * 256 + of_char c) 0 d"

definition be_int :: "string \<Rightarrow> int" where
  "be_int d = (let u = be_uint d; m = 2 ^ (8 * length d) in if m \<le> 2 * u then u - m else u)"

definition unpack :: "nat \<Rightarrow> (string \<Rightarrow> 'a) \<Rightarrow> string \<Rightarrow> isobmff \<Rightarrow> 'a res" where
  "unpack n conv d s = (if length d = n then Inr (conv d, s) else Inl (StructError, s))"

definition fields :: "nat \<Rightarrow> nat \<Rightarrow> (string \<Rightarrow> 'a) \<Rightarrow> string \<Rightarrow> 'a list" where
  "fields k w conv d = map (\<lambda>i. conv (take w (drop (i * w) d))) [0..<k]"

definition scan_uint16 :: "isobmff \<Rightarrow> int res" where
  "scan_uint16 = bind (file_read 2) (unpack 2 be_uint)"

definition scan_int16 :: "isobmff \<Rightarrow> int res" where
  "scan_int16 = bind (file_read 2) (unpack 2 be_int)"

definition scan_uint16_3 :: "isobmff \<Rightarrow> int list res" where
  "scan_uint16_3 = bind (file_read 6) (unpack 6 (fields 3 2 be_uint))"

definition scan_uint32 :: "isobmff \<Rightarrow> int res" where
  "scan_uint32 = bind (file_read 4) (unpack 4 be_uint)"

definition scan_int32 :: "isobmff \<Rightarrow> int res" where
  "scan_int32 = bind (file_read 4) (unpack 4 be_int)"

definition scan_uint64 :: "isobmff \<Rightarrow> int res" where
  "scan_uint64 = bind (file_read 8) (unpack 8 be_uint)"

definition scan_int64 :: "isobmff \<Rightarrow> int res" where
  "scan_int64 = bind (file_read 8) (unpack 8 be_int)"

definition scan_fourcc :: "isobmff \<Rightarrow> string res" where
  "scan_fourcc = bind (file_read 4) (unpack 4 (\<lambda>d. d))"

definition scan_matrix :: "isobmff \<Rightarrow> int list res" where
  "scan_matrix = bind (file_read (9 * 4)) (unpack 36 (fields 9 4 be_int))"

definition string_measure :: "string \<times> isobmff \<Rightarrow> nat" where
  "string_measure = (\<lambda>(acc, s). case fileobj s of None \<Rightarrow> 0 | Some b \<Rightarrow> length b - pos s)"

function scan_string_chars :: "string \<Rightarrow> isobmff \<Rightarrow> string res" where
  "scan_string_chars acc s =
     (case file_read 1 s of
        Inl e \<Rightarrow> Inl e
      | Inr (d, s1) \<Rightarrow>
          (case d of
             [] \<Rightarrow> Inl (IndexError, s1)
           | c # _ \<Rightarrow>
               if (of_char c :: nat) = 0 then Inr (acc, s1)
               else scan_string_chars (acc @ [c]) s1))"
  by pat_completeness auto
termination
proof (relation "measure string_measure", goal_cases)
  case 1
  show ?case by simp
next
  case (2 acc s r d s1 c rest)
  then have r: "file_read 1 s = Inr (c # rest, s1)"
    by simp
  then obtain b where b: "fileobj s = Some b"
    and eq: "c # rest = take 1 (drop (pos s) b)"
    and s1: "s1 = s\<lparr>pos := pos s + length (c # rest)\<rparr>"
    by (auto simp: file_read_def Let_def split: option.splits if_splits)
  from eq have "pos s < length b"
    by (cases "pos s < length b") auto
  with b s1 show ?case
    by (simp add: string_measure_def)
qed

definition scan_string :: "isobmff \<Rightarrow> string res" where
  "scan_string = scan_string_chars []"

definition scan_string_len :: "isobmff \<Rightarrow> string res" where
  "scan_string_len =
     bind (file_read 1) (\<lambda>d.
       case d of
         [] \<Rightarrow> (\<lambda>s. Inl (IndexError, s))
       | c # _ \<Rightarrow> file_read (of_char c))"

section \<open>Box headers\<close>

text \<open>
  \<open>scan_box\<close> returns the triple \<^verbatim>\<open>(boxsize, boxtype, skip)\<close>: the total size of the
  box, its four-character code, and the number of payload bytes after the header.
\<close>

definition scan_box :: "isobmff \<Rightarrow> (int \<times> string \<times> int) res" where
  "scan_box =
     bind scan_uint32 (\<lambda>boxsize.
     bind scan_fourcc (\<lambda>boxtype.
       if boxsize = 1 then
         bind scan_uint64 (\<lambda>boxsize.
           ret (boxsize, boxtype, boxsize - 16))
       else if boxsize = 0 then
         bind file_tell (\<lambda>curpos s.
           let boxsize = (filesize s - curpos) + 8
           in ret (boxsize, boxtype, boxsize - 8) s)
       else ret (boxsize, boxtype, boxsize - 8)))"

definition scan_fullbox :: "int \<Rightarrow> isobmff \<Rightarrow> (int \<times> int \<times> int) res" where
  "scan_fullbox remaining =
     bind scan_uint32 (\<lambda>verflags.
       let version = (drop_bit 24 verflags) AND 0x00FF;
           flags = verflags AND 0x00FFFFFF
       in ret (version, flags, remaining - 4))"

section \<open>Leaf decoders\<close>

text \<open>
  The \<^verbatim>\<open>while remaining > 0\<close> loop of \<^verbatim>\<open>scan_ftyp\<close> is \<open>scan_ftyp_brands\<close>; it returns
  the final value of \<^verbatim>\<open>remaining\<close>. The two version-dependent \<^verbatim>\<open>if\<close> blocks that assign
  the time fields are \<open>scan_times\<close> (\<^verbatim>\<open>mvhd\<close>, \<^verbatim>\<open>mdhd\<close>) and \<open>scan_tkhd_times\<close>
  (\<^verbatim>\<open>tkhd\<close>); the \<^verbatim>\<open>for\<close> loop of \<^verbatim>\<open>scan_elst\<close> is \<open>scan_elst_entries\<close>, which counts down
  the entries left and up the index \<open>i\<close>. The methods \<^verbatim>\<open>scan_url_\<close> and \<^verbatim>\<open>scan_urn_\<close>
  are \<open>scan_url\<close> and \<open>scan_urn\<close>. The list that \<^verbatim>\<open>range(entryCount)\<close> builds
  is not bounded by memory here. The method \<^verbatim>\<open>dumpBytes\<close> is never called and is left
  out; \<^verbatim>\<open>scan_string_len\<close>, never called either, is kept with the other reads.
\<close>

function scan_ftyp_brands :: "int \<Rightarrow> isobmff \<Rightarrow> int res" where
  "scan_ftyp_brands remaining s =
     (if remaining > 0 then
        (case scan_fourcc s of
           Inl e \<Rightarrow> Inl e
         | Inr (brand, s1) \<Rightarrow>
             scan_ftyp_brands (remaining - 4) (iprint ''compat brand: %s'' [PStr brand] s1))
      else Inr (remaining, s))"
  by pat_completeness auto
termination
  by (relation "measure (\<lambda>(remaining, s). nat remaining)") auto

definition scan_ftyp :: "int \<Rightarrow> isobmff \<Rightarrow> unit res" where
  "scan_ftyp remaining =
     bind scan_fourcc (\<lambda>majorBrand.
     bind scan_uint32 (\<lambda>minorVersion.
     bind (lift ipush) (\<lambda>_.
     bind (lift (iprint ''major brand: %s'' [PStr majorBrand])) (\<lambda>_.
     bind (lift (iprint ''minor version: %u'' [PInt minorVersion])) (\<lambda>_.
     bind (scan_ftyp_brands (remaining - 8)) (\<lambda>_.
     lift ipop))))))"

definition scan_times :: "int \<Rightarrow> isobmff \<Rightarrow> (int \<times> int \<times> int \<times> int) res" where
  "scan_times version =
     (if version = 1 then
        bind scan_uint64 (\<lambda>creationTime.
        bind scan_uint64 (\<lambda>modificationTime.
        bind scan_uint32 (\<lambda>timescale.
        bind scan_uint64 (\<lambda>duration.
        ret (creationTime, modificationTime, timescale, duration)))))
      else
        bind scan_uint32 (\<lambda>creationTime.
        bind scan_uint32 (\<lambda>modificationTime.
        bind scan_uint32 (\<lambda>timescale.
        bind scan_uint32 (\<lambda>duration.
        ret (creationTime, modificationTime, timescale, duration))))))"

definition scan_mvhd :: "int \<Rightarrow> isobmff \<Rightarrow> unit res" where
  "scan_mvhd remaining =
     bind (lift ipush) (\<lambda>_.
     bind (scan_fullbox remaining) (\<lambda>(version, flags, skip).
     bind (lift (iprint ''version = %s'' [PInt version])) (\<lambda>_.
     bind (lift (iprint ''flags = 0x%x'' [PInt flags])) (\<lambda>_.
     bind (scan_times version) (\<lambda>(creationTime, modificationTime, timescale, duration).
     bind (lift (iprint ''creation = %u'' [PInt creationTime])) (\<lambda>_.
     bind (lift (iprint ''modification = %u'' [PInt modificationTime])) (\<lambda>_.
     bind (lift (iprint ''timescale = %u'' [PInt timescale])) (\<lambda>_.
     bind (lift (iprint ''duration = %u'' [PInt duration])) (\<lambda>_.
     bind scan_uint32 (\<lambda>rate.
     bind scan_uint16 (\<lambda>volume.
     bind (lift (iprint ''rate = 0x%08x'' [PInt rate])) (\<lambda>_.
     bind (lift (iprint ''volume = 0x%04x'' [PInt volume])) (\<lambda>_.
     bind (file_seek_cur 10) (\<lambda>_.
     bind scan_matrix (\<lambda>matrix.
     bind (lift (iprint ''matrix = %s'' [PTuple matrix])) (\<lambda>_.
     bind (file_seek_cur 24) (\<lambda>_.
     bind scan_uint32 (\<lambda>nextTrackID.
     bind (lift (iprint ''nextTrackID = %d'' [PInt nextTrackID])) (\<lambda>_.
     lift ipop)))))))))))))))))))"

definition scan_tkhd_times :: "int \<Rightarrow> isobmff \<Rightarrow> (int \<times> int \<times> int \<times> int \<times> int) res" where
  "scan_tkhd_times version =
     (if version = 1 then
        bind scan_uint64 (\<lambda>creationTime.
        bind scan_uint64 (\<lambda>modificationTime.
        bind scan_uint32 (\<lambda>trackID.
        bind scan_uint32 (\<lambda>reserved.
        bind scan_uint64 (\<lambda>duration.
        ret (creationTime, modificationTime, trackID, reserved, duration))))))
      else
        bind scan_uint32 (\<lambda>creationTime.
        bind scan_uint32 (\<lambda>modificationTime.
        bind scan_uint32 (\<lambda>trackID.
        bind scan_uint32 (\<lambda>reserved.
        bind scan_uint32 (\<lambda>duration.
        ret (creationTime, modificationTime, trackID, reserved, duration)))))))"

definition scan_tkhd :: "int \<Rightarrow> isobmff \<Rightarrow> unit res" where
  "scan_tkhd remaining =
     bind (lift ipush) (\<lambda>_.
     bind (scan_fullbox remaining) (\<lambda>(version, flags, skip).
     bind (lift (iprint ''version = %s'' [PInt version])) (\<lambda>_.
     bind (lift (iprint ''flags = 0x%x'' [PInt flags])) (\<lambda>_.
     bind (scan_tkhd_times version) (\<lambda>(creationTime, modificationTime, trackID, reserved, duration).
     bind (lift (iprint ''creation = %u'' [PInt creationTime])) (\<lambda>_.
     bind (lift (iprint ''modification = %u'' [PInt modificationTime])) (\<lambda>_.
     bind (lift (iprint ''trackID = %u'' [PInt trackID])) (\<lambda>_.
     bind (lift (iprint ''duration = %u'' [PInt duration])) (\<lambda>_.
     bind (file_seek_cur (2 * 4)) (\<lambda>_.
     bind scan_int16 (\<lambda>layer.
     bind scan_uint16 (\<lambda>alternateGroup.
     bind scan_int16 (\<lambda>volume.
     bind scan_int16 (\<lambda>reserved.
     bind (lift (iprint ''layer = %d'' [PInt layer])) (\<lambda>_.
     bind (lift (iprint ''altGroup = %d'' [PInt alternateGroup])) (\<lambda>_.
     bind (lift (iprint ''volume = 0x%04x'' [PInt volume])) (\<lambda>_.
     bind scan_matrix (\<lambda>matrix.
     bind (lift (iprint ''matrix = %s'' [PTuple matrix])) (\<lambda>_.
     bind scan_int32 (\<lambda>width.
     bind scan_int32 (\<lambda>height.
     bind (lift (iprint ''width = %d'' [PInt width])) (\<lambda>_.
     bind (lift (iprint ''height = %d'' [PInt height])) (\<lambda>_.
     lift ipop)))))))))))))))))))))))"

definition language_char :: "int \<Rightarrow> string" where
  "language_char c = [char_of (c + 0x60)]"

definition scan_mdhd :: "int \<Rightarrow> isobmff \<Rightarrow> unit res" where
  "scan_mdhd remaining =
     bind (lift ipush) (\<lambda>_.
     bind (scan_fullbox remaining) (\<lambda>(version, flags, skip).
     bind (lift (iprint ''version = %s'' [PInt version])) (\<lambda>_.
     bind (lift (iprint ''flags = 0x%x'' [PInt flags])) (\<lambda>_.
     bind (scan_times version) (\<lambda>(creationTime, modificationTime, timescale, duration).
     bind (lift (iprint ''creation = %u'' [PInt creationTime])) (\<lambda>_.
     bind (lift (iprint ''modification = %u'' [PInt modificationTime])) (\<lambda>_.
     bind (lift (iprint ''timescale = %u'' [PInt timescale])) (\<lambda>_.
     bind (lift (iprint ''duration = %u'' [PInt duration])) (\<lambda>_.
     bind scan_uint16 (\<lambda>language.
     bind (lift (iprint ''language = %c%c%c''
             [PStr (language_char ((drop_bit 10 language) AND 0x001F)),
              PStr (language_char ((drop_bit 5 language) AND 0x001F)),
              PStr (language_char (language AND 0x1F))])) (\<lambda>_.
     bind scan_uint16 (\<lambda>pre_defined.
     lift ipop))))))))))))"

definition scan_hdlr :: "int \<Rightarrow> isobmff \<Rightarrow> unit res" where
  "scan_hdlr remaining =
     bind (lift ipush) (\<lambda>_.
     bind file_tell (\<lambda>p.
     let endpos = p + remaining in
     bind (scan_fullbox remaining) (\<lambda>(version, flags, skip).
     bind (lift (iprint ''version = %s'' [PInt version])) (\<lambda>_.
     bind (lift (iprint ''flags = 0x%x'' [PInt flags])) (\<lambda>_.
     bind scan_uint32 (\<lambda>pre_defined.
     bind scan_fourcc (\<lambda>handlerType.
     bind (lift (iprint ''handlerType = %s'' [PStr handlerType])) (\<lambda>_.
     bind (file_seek_cur (4 * 3)) (\<lambda>_.
     bind file_tell (\<lambda>curpos.
     bind (file_read (endpos - curpos)) (\<lambda>name.
     bind (lift (iprint ''name = %s'' [PStr name])) (\<lambda>_.
     lift ipop))))))))))))"

definition scan_vmhd :: "int \<Rightarrow> isobmff \<Rightarrow> unit res" where
  "scan_vmhd remaining =
     bind (lift ipush) (\<lambda>_.
     bind (scan_fullbox remaining) (\<lambda>(version, flags, skip).
     bind (lift (iprint ''version = %s'' [PInt version])) (\<lambda>_.
     bind (lift (iprint ''flags = 0x%x'' [PInt flags])) (\<lambda>_.
     bind scan_uint16 (\<lambda>graphicsMode.
     bind (lift (iprint ''graphicsMode = %d'' [PInt graphicsMode])) (\<lambda>_.
     bind scan_uint16_3 (\<lambda>opcolor.
     bind (lift (iprint ''opcolor = RGB%s'' [PTuple opcolor])) (\<lambda>_.
     lift ipop))))))))"

definition scan_smhd :: "int \<Rightarrow> isobmff \<Rightarrow> unit res" where
  "scan_smhd remaining =
     bind (lift ipush) (\<lambda>_.
     bind (scan_fullbox remaining) (\<lambda>(version, flags, skip).
     bind (lift (iprint ''version = %s'' [PInt version])) (\<lambda>_.
     bind (lift (iprint ''flags = 0x%x'' [PInt flags])) (\<lambda>_.
     bind scan_int16 (\<lambda>balance.
     bind (lift (iprint ''balance = %d / %.3f'' [PInt balance, PFloat (of_int balance / 16)])) (\<lambda>_.
     bind scan_uint16 (\<lambda>reserved.
     lift ipop)))))))"

definition scan_hmhd :: "int \<Rightarrow> isobmff \<Rightarrow> unit res" where
  "scan_hmhd remaining =
     bind (lift ipush) (\<lambda>_.
     bind (scan_fullbox remaining) (\<lambda>(version, flags, skip).
     bind (lift (iprint ''version = %s'' [PInt version])) (\<lambda>_.
     bind (lift (iprint ''flags = 0x%x'' [PInt flags])) (\<lambda>_.
     bind scan_uint16 (\<lambda>maxPDUSize.
     bind scan_uint16 (\<lambda>avgPDUSize.
     bind scan_uint32 (\<lambda>maxbitrate.
     bind scan_uint32 (\<lambda>avgbitrate.
     bind scan_uint32 (\<lambda>reserved.
     bind (lift (iprint ''maxPDUSize = %d'' [PInt maxPDUSize])) (\<lambda>_.
     bind (lift (iprint ''avgPDUSize = %d'' [PInt avgPDUSize])) (\<lambda>_.
     bind (lift (iprint ''maxbitrate = %d'' [PInt maxbitrate])) (\<lambda>_.
     bind (lift (iprint ''avgbitrate = %d'' [PInt avgbitrate])) (\<lambda>_.
     lift ipop)))))))))))))"

definition scan_nmhd :: "int \<Rightarrow> isobmff \<Rightarrow> unit res" where
  "scan_nmhd remaining =
     bind (lift ipush) (\<lambda>_.
     bind (scan_fullbox remaining) (\<lambda>(version, flags, skip).
     bind (lift (iprint ''version = %s'' [PInt version])) (\<lambda>_.
     bind (lift (iprint ''flags = 0x%x'' [PInt flags])) (\<lambda>_.
     lift ipop))))"

definition scan_url :: "int \<Rightarrow> isobmff \<Rightarrow> unit res" where
  "scan_url remaining =
     bind (lift ipush) (\<lambda>_.
     bind (scan_fullbox remaining) (\<lambda>(version, flags, skip).
     bind (lift (iprint ''version = %s'' [PInt version])) (\<lambda>_.
     bind (lift (iprint ''flags = 0x%x'' [PInt flags])) (\<lambda>_.
     bind (if flags AND 0x01 \<noteq> 0 then
             lift (iprint ''location = no location in URL'' [])
           else
             bind scan_string (\<lambda>location.
             lift (iprint ''location = %s'' [PStr location]))) (\<lambda>_.
     lift ipop)))))"

definition scan_urn :: "int \<Rightarrow> isobmff \<Rightarrow> unit res" where
  "scan_urn remaining =
     bind (lift ipush) (\<lambda>_.
     bind (scan_fullbox remaining) (\<lambda>(version, flags, skip).
     bind (lift (iprint ''version = %s'' [PInt version])) (\<lambda>_.
     bind (lift (iprint ''flags = 0x%x'' [PInt flags])) (\<lambda>_.
     bind scan_string (\<lambda>name.
     bind (lift (iprint ''name = %s'' [PStr name])) (\<lambda>_.
     bind scan_string (\<lambda>location.
     bind (lift (iprint ''location = %s'' [PStr location])) (\<lambda>_.
     lift ipop))))))))"

primrec scan_elst_entries :: "int \<Rightarrow> nat \<Rightarrow> int \<Rightarrow> isobmff \<Rightarrow> unit res" where
  "scan_elst_entries version 0 i = ret ()"
| "scan_elst_entries version (Suc n) i =
     bind (lift ipush) (\<lambda>_.
     bind (if version = 1 then
             bind scan_uint64 (\<lambda>segmentDuration.
             bind scan_int64 (\<lambda>mediaTime.
             ret (segmentDuration, mediaTime)))
           else
             bind scan_uint32 (\<lambda>segmentDuration.
             bind scan_int32 (\<lambda>mediaTime.
             ret (segmentDuration, mediaTime)))) (\<lambda>(segmentDuration, mediaTime).
     bind scan_int16 (\<lambda>mediaRateInt.
     bind scan_int16 (\<lambda>mediaRateFraction.
     bind (lift (iprint ''entry: %d'' [PInt i])) (\<lambda>_.
     bind (lift (iprint ''segmentDuration = %u'' [PInt segmentDuration])) (\<lambda>_.
     bind (lift (iprint ''mediaTime = %d'' [PInt mediaTime])) (\<lambda>_.
     bind (lift (iprint ''mediaRateInt = %d'' [PInt mediaRateInt])) (\<lambda>_.
     bind (lift (iprint ''mediaRateFrac = %d'' [PInt mediaRateFraction])) (\<lambda>_.
     bind (lift ipop) (\<lambda>_.
     scan_elst_entries version n (i + 1)))))))))))"

definition scan_elst :: "int \<Rightarrow> isobmff \<Rightarrow> unit res" where
  "scan_elst remaining =
     bind (lift ipush) (\<lambda>_.
     bind (scan_fullbox remaining) (\<lambda>(version, flags, skip).
     bind (lift (iprint ''version = %s'' [PInt version])) (\<lambda>_.
     bind (lift (iprint ''flags = 0x%x'' [PInt flags])) (\<lambda>_.
     bind scan_uint32 (\<lambda>entryCount.
     bind (lift (iprint ''entryCount = %d'' [PInt entryCount])) (\<lambda>_.
     bind (scan_elst_entries version (nat entryCount) 0) (\<lambda>_.
     lift ipop)))))))"

section \<open>Containers\<close>

text \<open>
  The nine container methods share one loop, character for character: while the position
  is before \<^verbatim>\<open>chunkend\<close>, read a header (leaving the loop on \<^verbatim>\<open>EOFError\<close>), print the box
  found, and hand the payload to the method chosen by an \<^verbatim>\<open>if\<close>/\<^verbatim>\<open>elif\<close> chain on the box
  type, whose last branch seeks past the payload. \<open>scan_children\<close> is that loop with the
  chain as a parameter, \<open>scan_container\<close> wraps it in \<^verbatim>\<open>ipush\<close>, the computation of
  \<^verbatim>\<open>chunkend\<close>, and \<^verbatim>\<open>ipop\<close>. Each method is then its chain (\<open>moov_child\<close>, \<open>trak_child\<close>,
  ...). The calls between the methods form no cycle, so the methods are defined from the
  innermost outwards.

  A header may declare a size that moves the position backwards or not at all, so a loop
  need not end: the loops return an \<open>option\<close>, and \<open>None\<close> is a run that never returns.
\<close>

type_synonym dispatch = "string \<Rightarrow> int \<Rightarrow> isobmff \<Rightarrow> unit res option"

partial_function (option) scan_children :: "dispatch \<Rightarrow> int \<Rightarrow> isobmff \<Rightarrow> unit res option" where
  "scan_children child chunkend s =
     (case file_tell s of
        Inl e \<Rightarrow> Some (Inl e)
      | Inr (p, s0) \<Rightarrow>
          if p < chunkend then
            (case scan_box s0 of
               Inl (e, s1) \<Rightarrow>
                 if e = EOFError then Some (Inr ((), s1)) else Some (Inl (e, s1))
             | Inr ((boxsize, boxtype, skip), s1) \<Rightarrow>
                 (case child boxtype skip
                         (iprint ''Box Found: %s of length %u'' [PStr boxtype, PInt boxsize] s1) of
                    None \<Rightarrow> None
                  | Some (Inl e) \<Rightarrow> Some (Inl e)
                  | Some (Inr (_, s2)) \<Rightarrow> scan_children child chunkend s2))
          else Some (Inr ((), s0)))"

declare scan_children.simps [code]

definition scan_container :: "dispatch \<Rightarrow> int \<Rightarrow> isobmff \<Rightarrow> unit res option" where
  "scan_container child remaining s =
     (case file_tell (ipush s) of
        Inl e \<Rightarrow> Some (Inl e)
      | Inr (p, s0) \<Rightarrow>
          (case scan_children child (p + remaining) s0 of
             None \<Rightarrow> None
           | Some (Inl e) \<Rightarrow> Some (Inl e)
           | Some (Inr (_, s1)) \<Rightarrow> Some (lift ipop s1)))"

definition skip_child :: dispatch where
  "skip_child boxtype skip s = Some (file_seek_cur skip s)"

definition scan_udta :: "int \<Rightarrow> isobmff \<Rightarrow> unit res option" where
  "scan_udta = scan_container skip_child"

definition scan_stbl :: "int \<Rightarrow> isobmff \<Rightarrow> unit res option" where
  "scan_stbl = scan_container skip_child"

definition edts_child :: dispatch where
  "edts_child boxtype skip s =
     (if boxtype = ''elst'' then Some (scan_elst skip s)
      else Some (file_seek_cur skip s))"

definition scan_edts :: "int \<Rightarrow> isobmff \<Rightarrow> unit res option" where
  "scan_edts = scan_container edts_child"

definition dref_child :: dispatch where
  "dref_child boxtype skip s =
     (if boxtype = ''url '' then Some (scan_url skip s)
      else if boxtype = ''urn '' then Some (scan_urn skip s)
      else Some (file_seek_cur skip s))"

definition scan_dref :: "int \<Rightarrow> isobmff \<Rightarrow> unit res option" where
  "scan_dref remaining s =
     (case bind file_tell (\<lambda>p.
           let chunkend = p + remaining in
           bind (scan_fullbox remaining) (\<lambda>(version, flags, skip).
           bind (lift (iprint ''version = %s'' [PInt version])) (\<lambda>_.
           bind (lift (iprint ''flags = 0x%x'' [PInt flags])) (\<lambda>_.
           bind scan_uint32 (\<lambda>entryCount.
           bind (lift (iprint ''entryCount = %d'' [PInt entryCount])) (\<lambda>_.
           ret chunkend)))))) (ipush s) of
        Inl e \<Rightarrow> Some (Inl e)
      | Inr (chunkend, s0) \<Rightarrow>
          (case scan_children dref_child chunkend s0 of
             None \<Rightarrow> None
           | Some (Inl e) \<Rightarrow> Some (Inl e)
           | Some (Inr (_, s1)) \<Rightarrow> Some (lift ipop s1)))"

definition dinf_child :: dispatch where
  "dinf_child boxtype skip s =
     (if boxtype = ''dref'' then scan_dref skip s
      else Some (file_seek_cur skip s))"

definition scan_dinf :: "int \<Rightarrow> isobmff \<Rightarrow> unit res option" where
  "scan_dinf = scan_container dinf_child"

definition minf_child :: dispatch where
  "minf_child boxtype skip s =
     (if boxtype = ''dinf'' then scan_dinf skip s
      else if boxtype = ''stbl'' then scan_stbl skip s
      else if boxtype = ''vmhd'' then Some (scan_vmhd skip s)
      else if boxtype = ''smhd'' then Some (scan_smhd skip s)
      else if boxtype = ''hmhd'' then Some (scan_hmhd skip s)
      else if boxtype = ''nmhd'' then Some (scan_nmhd skip s)
      else Some (file_seek_cur skip s))"

definition scan_minf :: "int \<Rightarrow> isobmff \<Rightarrow> unit res option" where
  "scan_minf = scan_container minf_child"

definition mdia_child :: dispatch where
  "mdia_child boxtype skip s =
     (if boxtype = ''mdhd'' then Some (scan_mdhd skip s)
      else if boxtype = ''hdlr'' then Some (scan_hdlr skip s)
      else if boxtype = ''minf'' then scan_minf skip s
      else Some (file_seek_cur skip s))"

definition scan_mdia :: "int \<Rightarrow> isobmff \<Rightarrow> unit res option" where
  "scan_mdia = scan_container mdia_child"

definition trak_child :: dispatch where
  "trak_child boxtype skip s =
     (if boxtype = ''tkhd'' then Some (scan_tkhd skip s)
      else if boxtype = ''mdia'' then scan_mdia skip s
      else if boxtype = ''edts'' then scan_edts skip s
      else if boxtype = ''udta'' then scan_udta skip s
      else Some (file_seek_cur skip s))"

definition scan_trak :: "int \<Rightarrow> isobmff \<Rightarrow> unit res option" where
  "scan_trak = scan_container trak_child"

definition moov_child :: dispatch where
  "moov_child boxtype skip s =
     (if boxtype = ''mvhd'' then Some (scan_mvhd skip s)
      else if boxtype = ''trak'' then scan_trak skip s
      else if boxtype = ''udta'' then scan_udta skip s
      else Some (file_seek_cur skip s))"

definition scan_moov :: "int \<Rightarrow> isobmff \<Rightarrow> unit res option" where
  "scan_moov = scan_container moov_child"

section \<open>The top-level scan\<close>

text \<open>
  \<open>scan_boxes\<close> is the loop of \<^verbatim>\<open>scan\<close>, with the counter \<^verbatim>\<open>numBoxes\<close> as an argument
  and as its result.
\<close>

definition toplevel_child :: dispatch where
  "toplevel_child boxtype skip s =
     (if boxtype = ''ftyp'' then Some (scan_ftyp skip s)
      else if boxtype = ''moov'' then scan_moov skip s
      else Some (file_seek_cur skip s))"

partial_function (option) scan_boxes :: "int \<Rightarrow> isobmff \<Rightarrow> int res option" where
  "scan_boxes numBoxes s =
     (case file_tell s of
        Inl e \<Rightarrow> Some (Inl e)
      | Inr (p, s0) \<Rightarrow>
          if p < filesize s0 then
            (case scan_box s0 of
               Inl (e, s1) \<Rightarrow>
                 if e = EOFError then Some (Inr (numBoxes, s1)) else Some (Inl (e, s1))
             | Inr ((boxsize, boxtype, skip), s1) \<Rightarrow>
                 (case toplevel_child boxtype skip
                         (iprint ''Box Found: %s of length %u'' [PStr boxtype, PInt boxsize] s1) of
                    None \<Rightarrow> None
                  | Some (Inl e) \<Rightarrow> Some (Inl e)
                  | Some (Inr (_, s2)) \<Rightarrow> scan_boxes (numBoxes + 1) (print_plain [] s2)))
          else Some (Inr (numBoxes, s0)))"

declare scan_boxes.simps [code]

definition scan :: "isobmff \<Rightarrow> unit res option" where
  "scan s =
     (case fileobj s of
        None \<Rightarrow> Some (Inl (IOError, s))
      | Some b \<Rightarrow>
          (case file_seek_set 0 s of
             Inl e \<Rightarrow> Some (Inl e)
           | Inr (_, s0) \<Rightarrow>
               (case scan_boxes 0 s0 of
                  None \<Rightarrow> None
                | Some (Inl e) \<Rightarrow> Some (Inl e)
                | Some (Inr (numBoxes, s1)) \<Rightarrow>
                    Some (lift (iprint ''%d boxes scanned'' [PInt numBoxes]) s1))))"

section \<open>Notions used in the statements\<close>

subsection \<open>Measurements\<close>



text \<open>
  The total sizes of the top-level boxes that a scan has announced are read off its output:
  they are the second argument of the lines \<^verbatim>\<open>Box Found: ... of length ...\<close> printed at
  indentation 0 (boxes inside a container are announced at a deeper indentation).
\<close>

fun box_found :: "line \<Rightarrow> int list" where
  "box_found (Indented i fmt args) =
     (if i = 0 \<and> fmt = ''Box Found: %s of length %u''
      then (case args of [PStr boxtype, PInt boxsize] \<Rightarrow> [boxsize] | _ \<Rightarrow> [])
      else [])"
| "box_found (Plain msg) = []"

definition toplevel_sizes :: "line list \<Rightarrow> int list" where
  "toplevel_sizes ls = concat (map box_found ls)"


text \<open>
  A decoder is balanced when, entered with a non-negative indentation counter, it leaves
  the counter non-negative however it ends, and equal to its value at entry when it
  returns.
\<close>

definition balanced :: "(int \<Rightarrow> isobmff \<Rightarrow> unit res option) \<Rightarrow> bool" where
  "balanced decoder = (\<forall>remaining s r. 0 \<le> indent s \<longrightarrow> decoder remaining s = Some r \<longrightarrow>
     (case r of Inl (e, s') \<Rightarrow> 0 \<le> indent s' | Inr (u, s') \<Rightarrow> indent s' = indent s))"

subsection \<open>Notions of the proofs\<close>

text \<open>
  \<open>frame s s'\<close>: between \<open>s\<close> and \<open>s'\<close> the file, the recorded file size and the
  top-level sizes announced so far are the same. \<open>ind i m j\<close>: started with the
  indentation counter at \<open>i\<close>, the step \<open>m\<close> returns with the counter at \<open>j\<close> and within
  the frame, and raises only with a non-negative counter; \<open>indo\<close> is the same for a step
  that may not return. \<open>errs m E\<close>: the step \<open>m\<close> raises only exceptions of the set \<open>E\<close>.
\<close>

definition frame :: "isobmff \<Rightarrow> isobmff \<Rightarrow> bool" where
  "frame s s' = (fileobj s' = fileobj s \<and> filesize s' = filesize s \<and>
     toplevel_sizes (out s') = toplevel_sizes (out s))"

definition ind :: "nat \<Rightarrow> (isobmff \<Rightarrow> 'a res) \<Rightarrow> nat \<Rightarrow> bool" where
  "ind i m j = (\<forall>s. indent s = int i \<longrightarrow>
     (case m s of
        Inl (e, s') \<Rightarrow> 0 \<le> indent s'
      | Inr (x, s') \<Rightarrow> indent s' = int j \<and> frame s s'))"

definition indo :: "nat \<Rightarrow> (isobmff \<Rightarrow> 'a res option) \<Rightarrow> nat \<Rightarrow> bool" where
  "indo i m j = (\<forall>s r. indent s = int i \<longrightarrow> m s = Some r \<longrightarrow>
     (case r of
        Inl (e, s') \<Rightarrow> 0 \<le> indent s'
      | Inr (x, s') \<Rightarrow> indent s' = int j \<and> frame s s'))"

definition errs :: "(isobmff \<Rightarrow> 'a res) \<Rightarrow> error set \<Rightarrow> bool" where
  "errs m E = (\<forall>s e s'. m s = Inl (e, s') \<longrightarrow> e \<in> E)"

subsection \<open>Sample files\<close>

text \<open>
  \<open>ftyp_file\<close> is the smallest complete file: one \<^verbatim>\<open>ftyp\<close> box of 20 bytes with major
  brand \<^verbatim>\<open>isom\<close>, minor version 512 and the one compatible brand \<^verbatim>\<open>mp41\<close>.
  \<open>extended_file\<close> is one \<^verbatim>\<open>free\<close> box in the 64-bit form (size field 1, extended size
  24, 8 bytes of payload); \<open>rest_of_file\<close> is one \<^verbatim>\<open>mdat\<close> box whose size field is 0,
  with 4 bytes of payload.
\<close>

definition ftyp_file :: string where
  "ftyp_file =
     [CHR 0x00, CHR 0x00, CHR 0x00, CHR 0x14] @ ''ftyp'' @
     ''isom'' @ [CHR 0x00, CHR 0x00, CHR 0x02, CHR 0x00] @ ''mp41''"

definition extended_file :: string where
  "extended_file =
     [CHR 0x00, CHR 0x00, CHR 0x00, CHR 0x01] @ ''free'' @
     [CHR 0x00, CHR 0x00, CHR 0x00, CHR 0x00, CHR 0x00, CHR 0x00, CHR 0x00, CHR 0x18] @
     replicate 8 (CHR 0x00)"

definition rest_of_file :: string where
  "rest_of_file = [CHR 0x00, CHR 0x00, CHR 0x00, CHR 0x00] @ ''mdat'' @ ''abcd''"





text \<open>
  \<open>truncated_moov\<close>: the header of a \<^verbatim>\<open>moov\<close> box that declares 16 bytes, in a file
  that ends after the header.
\<close>

definition truncated_moov :: string where
  "truncated_moov = [CHR 0x00, CHR 0x00, CHR 0x00, CHR 0x10] @ ''moov''"

text \<open>
  \<open>hdlr_file\<close>: a \<^verbatim>\<open>hdlr\<close> box of 40 bytes inside \<^verbatim>\<open>moov\<close>, \<^verbatim>\<open>trak\<close> and \<^verbatim>\<open>mdia\<close>; its
  name field is the 8 bytes \<^verbatim>\<open>abcdefgh\<close>, with no zero byte. \<open>truncated_hdlr_file\<close> is
  the same file without its last 4 bytes.
\<close>

definition hdlr_file :: string where
  "hdlr_file =
     [CHR 0x00, CHR 0x00, CHR 0x00, CHR 0x40] @ ''moov'' @
     [CHR 0x00, CHR 0x00, CHR 0x00, CHR 0x38] @ ''trak'' @
     [CHR 0x00, CHR 0x00, CHR 0x00, CHR 0x30] @ ''mdia'' @
     [CHR 0x00, CHR 0x00, CHR 0x00, CHR 0x28] @ ''hdlr'' @
     replicate 8 (CHR 0x00) @ ''vide'' @ replicate 12 (CHR 0x00) @ ''abcdefgh''"

definition truncated_hdlr_file :: string where
  "truncated_hdlr_file = take 60 hdlr_file"

text \<open>
  \<open>smhd_file\<close>: a \<^verbatim>\<open>smhd\<close> box inside \<^verbatim>\<open>moov\<close>, \<^verbatim>\<open>trak\<close>, \<^verbatim>\<open>mdia\<close> and \<^verbatim>\<open>minf\<close>, with
  the balance field \<^verbatim>\<open>0x0100\<close>, the 8.8 fixed-point encoding of 1.
\<close>

definition smhd_file :: string where
  "smhd_file =
     [CHR 0x00, CHR 0x00, CHR 0x00, CHR 0x30] @ ''moov'' @
     [CHR 0x00, CHR 0x00, CHR 0x00, CHR 0x28] @ ''trak'' @
     [CHR 0x00, CHR 0x00, CHR 0x00, CHR 0x20] @ ''mdia'' @
     [CHR 0x00, CHR 0x00, CHR 0x00, CHR 0x18] @ ''minf'' @
     [CHR 0x00, CHR 0x00, CHR 0x00, CHR 0x10] @ ''smhd'' @
     [CHR 0x00, CHR 0x00, CHR 0x00, CHR 0x00, CHR 0x01, CHR 0x00, CHR 0x00, CHR 0x00]"


section \<open>Reads that succeed\<close>

declare scan_string_chars.simps [simp del]
declare scan_ftyp_brands.simps [simp del]

lemma file_read_ok:
  assumes "fileobj s = Some b" and "pos s + n \<le> length b" and "int n \<le> 2 ^ 63 - 1"
  shows "file_read (int n) s = Inr (take n (drop (pos s) b), s\<lparr>pos := pos s + n\<rparr>)"
  using assms by (simp add: file_read_def Let_def min_def)

lemma fixed_read_ok:
  assumes "fileobj s = Some b" and "pos s + n \<le> length b" and "int n \<le> 2 ^ 63 - 1"
  shows "bind (file_read (int n)) (unpack n conv) s
           = Inr (conv (take n (drop (pos s) b)), s\<lparr>pos := pos s + n\<rparr>)"
  using assms by (simp add: bind_def file_read_ok unpack_def)

lemma scan_uint16_ok:
  "fileobj s = Some b \<Longrightarrow> pos s + 2 \<le> length b \<Longrightarrow>
   scan_uint16 s = Inr (be_uint (take 2 (drop (pos s) b)), s\<lparr>pos := pos s + 2\<rparr>)"
  using fixed_read_ok [of s b 2 be_uint] by (simp add: scan_uint16_def)

lemma scan_int16_ok:
  "fileobj s = Some b \<Longrightarrow> pos s + 2 \<le> length b \<Longrightarrow>
   scan_int16 s = Inr (be_int (take 2 (drop (pos s) b)), s\<lparr>pos := pos s + 2\<rparr>)"
  using fixed_read_ok [of s b 2 be_int] by (simp add: scan_int16_def)

lemma scan_uint32_ok:
  "fileobj s = Some b \<Longrightarrow> pos s + 4 \<le> length b \<Longrightarrow>
   scan_uint32 s = Inr (be_uint (take 4 (drop (pos s) b)), s\<lparr>pos := pos s + 4\<rparr>)"
  using fixed_read_ok [of s b 4 be_uint] by (simp add: scan_uint32_def)

lemma scan_int32_ok:
  "fileobj s = Some b \<Longrightarrow> pos s + 4 \<le> length b \<Longrightarrow>
   scan_int32 s = Inr (be_int (take 4 (drop (pos s) b)), s\<lparr>pos := pos s + 4\<rparr>)"
  using fixed_read_ok [of s b 4 be_int] by (simp add: scan_int32_def)

lemma scan_uint64_ok:
  "fileobj s = Some b \<Longrightarrow> pos s + 8 \<le> length b \<Longrightarrow>
   scan_uint64 s = Inr (be_uint (take 8 (drop (pos s) b)), s\<lparr>pos := pos s + 8\<rparr>)"
  using fixed_read_ok [of s b 8 be_uint] by (simp add: scan_uint64_def)

lemma scan_fourcc_ok:
  "fileobj s = Some b \<Longrightarrow> pos s + 4 \<le> length b \<Longrightarrow>
   scan_fourcc s = Inr (take 4 (drop (pos s) b), s\<lparr>pos := pos s + 4\<rparr>)"
  using fixed_read_ok [of s b 4 "\<lambda>d. d"] by (simp add: scan_fourcc_def)

lemma scan_matrix_ok:
  "fileobj s = Some b \<Longrightarrow> pos s + 36 \<le> length b \<Longrightarrow>
   scan_matrix s = Inr (fields 9 4 be_int (take 36 (drop (pos s) b)), s\<lparr>pos := pos s + 36\<rparr>)"
  using fixed_read_ok [of s b 36 "fields 9 4 be_int"] by (simp add: scan_matrix_def)

lemma file_tell_ok: "fileobj s = Some b \<Longrightarrow> file_tell s = Inr (int (pos s), s)"
  by (simp add: file_tell_def)

lemma file_seek_cur_ok:
  "fileobj s = Some b \<Longrightarrow> int (pos s) + int n \<le> 2 ^ 63 - 1 \<Longrightarrow>
   file_seek_cur (int n) s = Inr ((), s\<lparr>pos := pos s + n\<rparr>)"
  by (auto simp: file_seek_cur_def nat_add_distrib)

lemma of_char_int_bounds: "0 \<le> (of_char c :: int)" "(of_char c :: int) < 256"
proof -
  have eq: "(of_char c :: int) = int (of_char c)"
    by (simp add: of_nat_of_char)
  show "0 \<le> (of_char c :: int)" by (simp add: eq)
  show "(of_char c :: int) < 256" by (simp add: eq)
qed

lemma version_byte:
  assumes "length d = 4"
  shows "(drop_bit 24 (be_uint d)) AND 0x00FF = of_char (hd d)"
proof -
  from assms obtain a b c e where d: "d = [a, b, c, e]"
    by (auto simp: length_Suc_conv numeral_eq_Suc)
  define A B C E :: int where "A = of_char a" and "B = of_char b" and "C = of_char c" and "E = of_char e"
  have bounds: "0 \<le> A" "A < 256" "0 \<le> B" "B < 256" "0 \<le> C" "C < 256" "0 \<le> E" "E < 256"
    by (simp_all add: A_def B_def C_def E_def of_char_int_bounds)
  have u: "be_uint d = A * 16777216 + (B * 65536 + C * 256 + E)"
    by (simp add: d be_uint_def A_def B_def C_def E_def algebra_simps)
  have "(A * 16777216 + (B * 65536 + C * 256 + E)) div 16777216 = A"
    using bounds by (simp add: div_pos_pos_trivial)
  then have "drop_bit 24 (be_uint d) = A"
    by (simp add: u drop_bit_eq_div)
  moreover have "A AND 255 = A"
  proof -
    have "A AND mask 8 = A mod 2 ^ 8" by (simp only: take_bit_eq_mask [symmetric] take_bit_eq_mod)
    then show ?thesis using bounds by (simp add: mask_eq_exp_minus_1)
  qed
  ultimately show ?thesis by (simp add: d A_def)
qed

lemma scan_fullbox_ok:
  assumes "fileobj s = Some b" and "pos s + 4 \<le> length b"
  shows "scan_fullbox remaining s =
           Inr ((of_char (b ! pos s), be_uint (take 4 (drop (pos s) b)) AND 0x00FFFFFF, remaining - 4),
                s\<lparr>pos := pos s + 4\<rparr>)"
proof -
  have len: "length (take 4 (drop (pos s) b)) = 4" using assms by simp
  have "hd (take 4 (drop (pos s) b)) = b ! pos s"
    using assms by (simp add: hd_drop_conv_nth)
  with version_byte [OF len] show ?thesis
    using assms by (simp add: scan_fullbox_def bind_def scan_uint32_ok Let_def ret_def)
qed

lemmas reads_ok = scan_uint16_ok scan_int16_ok scan_uint32_ok scan_int32_ok scan_uint64_ok
  scan_fourcc_ok scan_matrix_ok file_tell_ok file_seek_cur_ok scan_fullbox_ok


section \<open>The exceptions of a header read\<close>

lemma errs_bind:
  assumes m: "errs m E" and f: "\<And>x. errs (f x) E"
  shows "errs (bind m f) E"
  unfolding errs_def
proof (intro allI impI)
  fix s e s' assume r: "bind m f s = Inl (e, s')"
  show "e \<in> E"
  proof (cases "m s")
    case (Inl p)
    with r have "m s = Inl (e, s')" by (simp add: bind_def)
    with m show ?thesis unfolding errs_def by blast
  next
    case (Inr p)
    obtain x s1 where p: "p = (x, s1)" by (cases p)
    with Inr r have "f x s1 = Inl (e, s')" by (simp add: bind_def)
    with f show ?thesis unfolding errs_def by blast
  qed
qed

lemma errs_ret: "errs (ret x) E"
  by (simp add: errs_def ret_def)

lemma errs_ret_state: "errs (\<lambda>s. ret (g s) s) E"
  by (simp add: errs_def ret_def)

lemma errs_if: "errs a E \<Longrightarrow> errs b E \<Longrightarrow> errs (if c then a else b) E"
  by simp

lemma errs_file_tell: "errs file_tell {StructError, AttributeError}"
  by (simp add: errs_def file_tell_def split: option.splits)

lemma errs_fixed:
  "- (2 ^ 63) \<le> n \<Longrightarrow> n \<le> 2 ^ 63 - 1 \<Longrightarrow>
   errs (bind (file_read n) (unpack k conv)) {StructError, AttributeError}"
  by (simp add: errs_def bind_def file_read_def unpack_def Let_def split: option.splits)

lemma errs_scalars:
  "errs scan_uint32 {StructError, AttributeError}"
  "errs scan_uint64 {StructError, AttributeError}"
  "errs scan_fourcc {StructError, AttributeError}"
  unfolding scan_uint32_def scan_uint64_def scan_fourcc_def
  by (rule errs_fixed; simp)+

lemma errs_scan_box: "errs scan_box {StructError, AttributeError}"
  unfolding scan_box_def Let_def
  by (rule errs_bind errs_scalars errs_if errs_ret errs_ret_state errs_file_tell)+

lemma scan_box_not_EOFError: "scan_box s \<noteq> Inl (EOFError, s')"
  using errs_scan_box unfolding errs_def by fastforce

section \<open>The indentation counter and the frame\<close>

lemma box_found_deep: "i \<noteq> 0 \<Longrightarrow> box_found (Indented i fmt args) = []"
  by simp

lemma toplevel_sizes_append:
  "toplevel_sizes (ls @ ls') = toplevel_sizes ls @ toplevel_sizes ls'"
  by (simp add: toplevel_sizes_def)

lemma frame_refl: "frame s s"
  by (simp add: frame_def)

lemma frame_trans: "frame s s' \<Longrightarrow> frame s' s'' \<Longrightarrow> frame s s''"
  by (simp add: frame_def)

lemma frame_pos: "frame s (s\<lparr>pos := p\<rparr>)"
  by (simp add: frame_def)

lemma frame_ipush: "frame s (ipush s)"
  by (simp add: frame_def ipush_def)

lemma frame_ipop: "frame s (ipop s)"
  by (simp add: frame_def ipop_def)

lemma frame_iprint: "indent s \<noteq> 0 \<Longrightarrow> frame s (iprint fmt args s)"
  by (simp add: frame_def iprint_def toplevel_sizes_append) (simp add: toplevel_sizes_def)


lemma indI:
  assumes "\<And>s e s'. indent s = int i \<Longrightarrow> m s = Inl (e, s') \<Longrightarrow> 0 \<le> indent s'"
    and "\<And>s x s'. indent s = int i \<Longrightarrow> m s = Inr (x, s') \<Longrightarrow> indent s' = int j \<and> frame s s'"
  shows "ind i m j"
  unfolding ind_def
proof (intro allI impI)
  fix s :: isobmff assume i: "indent s = int i"
  show "case m s of Inl (e, s') \<Rightarrow> 0 \<le> indent s'
        | Inr (x, s') \<Rightarrow> indent s' = int j \<and> frame s s'"
  proof (cases "m s")
    case (Inl p)
    then show ?thesis using assms(1) [OF i, of "fst p" "snd p"] by (cases p) simp
  next
    case (Inr p)
    then show ?thesis using assms(2) [OF i, of "fst p" "snd p"] by (cases p) simp
  qed
qed

lemma indD:
  assumes "ind i m j" and "indent s = int i"
  shows "m s = Inl (e, s') \<Longrightarrow> 0 \<le> indent s'"
    and "m s = Inr (x, s') \<Longrightarrow> indent s' = int j"
    and "m s = Inr (x, s') \<Longrightarrow> frame s s'"
proof -
  from assms have c: "case m s of Inl (e, s') \<Rightarrow> 0 \<le> indent s'
      | Inr (x, s') \<Rightarrow> indent s' = int j \<and> frame s s'"
    unfolding ind_def by blast
  show "m s = Inl (e, s') \<Longrightarrow> 0 \<le> indent s'" using c by simp
  show "m s = Inr (x, s') \<Longrightarrow> indent s' = int j" using c by simp
  show "m s = Inr (x, s') \<Longrightarrow> frame s s'" using c by simp
qed

lemma ind_bind:
  assumes m: "ind i m k" and f: "\<And>x. ind k (f x) j"
  shows "ind i (bind m f) j"
proof (rule indI)
  fix s :: isobmff and e s' assume i: "indent s = int i" and r: "bind m f s = Inl (e, s')"
  show "0 \<le> indent s'"
  proof (cases "m s")
    case (Inl p)
    with r have "m s = Inl (e, s')" by (simp add: bind_def)
    then show ?thesis by (rule indD(1) [OF m i])
  next
    case (Inr p)
    obtain x s1 where p: "p = (x, s1)" by (cases p)
    from Inr p have "indent s1 = int k" using indD(2) [OF m i] by simp
    moreover from Inr p r have "f x s1 = Inl (e, s')" by (simp add: bind_def)
    ultimately show ?thesis using indD(1) [OF f] by blast
  qed
next
  fix s :: isobmff and x s' assume i: "indent s = int i" and r: "bind m f s = Inr (x, s')"
  show "indent s' = int j \<and> frame s s'"
  proof (cases "m s")
    case (Inl p)
    with r show ?thesis by (simp add: bind_def)
  next
    case (Inr p)
    obtain y s1 where p: "p = (y, s1)" by (cases p)
    from Inr p have k: "indent s1 = int k" using indD(2) [OF m i] by simp
    from Inr p have fr: "frame s s1" using indD(3) [OF m i] by simp
    from Inr p r have run: "f y s1 = Inr (x, s')" by (simp add: bind_def)
    from indD(2) [OF f k run] indD(3) [OF f k run] fr show ?thesis
      by (blast intro: frame_trans)
  qed
qed

lemma ind_ret: "ind i (ret x) i"
  by (simp add: ind_def ret_def frame_refl)

lemma ind_ret_state: "ind i (\<lambda>s. ret (g s) s) i"
  by (simp add: ind_def ret_def frame_refl)

lemma ind_iprint: "ind (Suc i) (lift (iprint fmt args)) (Suc i)"
  unfolding ind_def lift_def
proof (intro allI impI)
  fix s :: isobmff assume "indent s = int (Suc i)"
  then have "indent s \<noteq> 0" by simp
  then have "frame s (iprint fmt args s)" by (rule frame_iprint)
  with \<open>indent s = int (Suc i)\<close>
  show "case Inr ((), iprint fmt args s) of Inl (e, s') \<Rightarrow> 0 \<le> indent s'
        | Inr (x, s') \<Rightarrow> indent s' = int (Suc i) \<and> frame s s'"
    by (simp add: iprint_def)
qed

lemma ind_ipush: "ind i (lift ipush) (Suc i)"
  by (simp add: ind_def lift_def frame_ipush) (simp add: ipush_def)

lemma ind_ipop: "ind (Suc i) (lift ipop) i"
  by (simp add: ind_def lift_def frame_ipop) (simp add: ipop_def)

lemma ind_if: "(c \<Longrightarrow> ind i a j) \<Longrightarrow> (\<not> c \<Longrightarrow> ind i b j) \<Longrightarrow> ind i (if c then a else b) j"
  by (cases c) simp_all

lemma ind_case_prod: "(\<And>a b. ind i (f a b) j) \<Longrightarrow> ind i (case p of (a, b) \<Rightarrow> f a b) j"
  by (cases p) simp

lemma ind_let: "ind i (f v) j \<Longrightarrow> ind i (let x = v in f x) j"
  by (simp only: Let_def)

lemma ind_file_read: "ind i (file_read n) i"
  by (simp add: ind_def file_read_def Let_def frame_pos frame_refl split: option.splits)

lemma ind_unpack: "ind i (unpack n conv d) i"
  by (simp add: ind_def unpack_def frame_refl)

lemma ind_file_tell: "ind i file_tell i"
  by (simp add: ind_def file_tell_def frame_refl split: option.splits)

lemma ind_file_seek_cur: "ind i (file_seek_cur n) i"
  by (simp add: ind_def file_seek_cur_def frame_pos split: option.splits)

lemma ind_file_seek_set: "ind i (file_seek_set n) i"
  by (simp add: ind_def file_seek_set_def frame_pos split: option.splits)

lemma ind_fixed: "ind i (bind (file_read n) (unpack k conv)) i"
  by (rule ind_bind ind_file_read ind_unpack)+

lemma ind_scalars:
  "ind i scan_uint16 i" "ind i scan_int16 i" "ind i scan_uint16_3 i" "ind i scan_uint32 i"
  "ind i scan_int32 i" "ind i scan_uint64 i" "ind i scan_int64 i" "ind i scan_fourcc i"
  "ind i scan_matrix i"
  unfolding scan_uint16_def scan_int16_def scan_uint16_3_def scan_uint32_def
      scan_int32_def scan_uint64_def scan_int64_def scan_fourcc_def scan_matrix_def
  by (rule ind_fixed)+

lemma ind_scan_fullbox: "ind i (scan_fullbox remaining) i"
  unfolding scan_fullbox_def Let_def
  by (rule ind_bind ind_scalars ind_ret)+

lemma ind_scan_times: "ind i (scan_times version) i"
  unfolding scan_times_def
  by (rule ind_if ind_bind ind_scalars ind_ret)+

lemma ind_scan_tkhd_times: "ind i (scan_tkhd_times version) i"
  unfolding scan_tkhd_times_def
  by (rule ind_if ind_bind ind_scalars ind_ret)+

lemma ind_scan_box: "ind i scan_box i"
  unfolding scan_box_def Let_def
  by (rule ind_bind ind_scalars ind_if ind_ret ind_ret_state ind_file_tell)+

lemma ind_scan_string_chars: "ind i (scan_string_chars acc) i"
proof -
  have "indent s = int i \<Longrightarrow>
        (case scan_string_chars acc s of Inl (e, s') \<Rightarrow> 0 \<le> indent s'
         | Inr (x, s') \<Rightarrow> indent s' = int i \<and> frame s s')"
    for s :: isobmff
  proof (induction acc s rule: scan_string_chars.induct)
    case (1 acc s)
    note r = indD [OF ind_file_read [of i 1] "1.prems"]
    show ?case
    proof (cases "file_read 1 s")
      case (Inl p)
      obtain e s1 where p: "p = (e, s1)" by (cases p)
      with Inl r(1) have "0 \<le> indent s1" by simp
      with Inl p show ?thesis by (simp add: scan_string_chars.simps [of acc s])
    next
      case (Inr p)
      obtain d s1 where p: "p = (d, s1)" by (cases p)
      with r(2) Inr have s1: "indent s1 = int i" by simp
      from p r(3) Inr have fr: "frame s s1" by simp
      show ?thesis
      proof (cases d)
        case Nil
        with Inr p s1 show ?thesis by (simp add: scan_string_chars.simps [of acc s])
      next
        case (Cons c rest)
        show ?thesis
        proof (cases "(of_char c :: nat) = 0")
          case True
          with Inr p s1 fr Cons show ?thesis by (simp add: scan_string_chars.simps [of acc s])
        next
          case False
          from "1.IH" [OF Inr p [symmetric] Cons False s1]
          have "case scan_string_chars (acc @ [c]) s1 of Inl (e, s') \<Rightarrow> 0 \<le> indent s'
                | Inr (x, s') \<Rightarrow> indent s' = int i \<and> frame s s'"
            using fr by (auto split: sum.splits intro: frame_trans)
          then show ?thesis using Inr p Cons False by (simp add: scan_string_chars.simps [of acc s])
        qed
      qed
    qed
  qed
  then show ?thesis by (simp add: ind_def)
qed

lemma ind_scan_string: "ind i scan_string i"
  by (simp add: scan_string_def ind_scan_string_chars)

lemma ind_scan_ftyp_brands: "ind (Suc i) (scan_ftyp_brands remaining) (Suc i)"
proof -
  have "indent s = int (Suc i) \<Longrightarrow>
        (case scan_ftyp_brands remaining s of Inl (e, s') \<Rightarrow> 0 \<le> indent s'
         | Inr (x, s') \<Rightarrow> indent s' = int (Suc i) \<and> frame s s')"
    for s :: isobmff
  proof (induction remaining s rule: scan_ftyp_brands.induct)
    case (1 remaining s)
    note r = indD [OF ind_scalars(8) [of "Suc i"] "1.prems"]
    show ?case
    proof (cases "0 < remaining")
      case False
      with "1.prems" show ?thesis
        by (simp add: scan_ftyp_brands.simps [of remaining s] frame_refl)
    next
      case True
      show ?thesis
      proof (cases "scan_fourcc s")
        case (Inl p)
        obtain e s1 where p: "p = (e, s1)" by (cases p)
        with Inl r(1) have "0 \<le> indent s1" by simp
        with Inl p True show ?thesis by (simp add: scan_ftyp_brands.simps [of remaining s])
      next
        case (Inr p)
        obtain brand s1 where p: "p = (brand, s1)" by (cases p)
        define s2 where "s2 = iprint ''compat brand: %s'' [PStr brand] s1"
        from p r(2) Inr have s1: "indent s1 = int (Suc i)" by simp
        then have s2: "indent s2 = int (Suc i)" by (simp add: s2_def iprint_def)
        from s1 have "frame s1 s2" unfolding s2_def by (intro frame_iprint) simp
        with p r(3) Inr have fr: "frame s s2" by (blast intro: frame_trans)
        from "1.IH" [OF True Inr p [symmetric] s2 [unfolded s2_def]]
        have "case scan_ftyp_brands (remaining - 4) s2 of Inl (e, s') \<Rightarrow> 0 \<le> indent s'
              | Inr (x, s') \<Rightarrow> indent s' = int (Suc i) \<and> frame s s'"
          using fr unfolding s2_def by (auto split: sum.splits intro: frame_trans)
        then show ?thesis using True Inr p
          by (simp add: scan_ftyp_brands.simps [of remaining s] s2_def)
      qed
    qed
  qed
  then show ?thesis by (simp add: ind_def)
qed

lemmas ind_rules = ind_bind ind_ret ind_iprint ind_ipush ind_ipop ind_if ind_case_prod ind_let
  ind_scalars ind_file_tell ind_file_seek_cur ind_file_read ind_scan_fullbox ind_scan_times
  ind_scan_tkhd_times ind_scan_string ind_scan_ftyp_brands

lemma ind_scan_elst_entries: "ind (Suc i) (scan_elst_entries version n k) (Suc i)"
proof (induction n arbitrary: k)
  case 0
  show ?case by (simp add: ind_ret)
next
  case (Suc n)
  show ?case
    unfolding scan_elst_entries.simps(2)
    by (rule ind_rules Suc.IH)+
qed

lemma ind_scan_ftyp: "ind i (scan_ftyp remaining) i"
  unfolding scan_ftyp_def by (rule ind_rules)+

lemma ind_scan_mvhd: "ind i (scan_mvhd remaining) i"
  unfolding scan_mvhd_def by (rule ind_rules)+

lemma ind_scan_tkhd: "ind i (scan_tkhd remaining) i"
  unfolding scan_tkhd_def by (rule ind_rules)+

lemma ind_scan_mdhd: "ind i (scan_mdhd remaining) i"
  unfolding scan_mdhd_def by (rule ind_rules)+

lemma ind_scan_hdlr: "ind i (scan_hdlr remaining) i"
  unfolding scan_hdlr_def by (rule ind_rules)+

lemma ind_scan_vmhd: "ind i (scan_vmhd remaining) i"
  unfolding scan_vmhd_def by (rule ind_rules)+

lemma ind_scan_smhd: "ind i (scan_smhd remaining) i"
  unfolding scan_smhd_def by (rule ind_rules)+

lemma ind_scan_hmhd: "ind i (scan_hmhd remaining) i"
  unfolding scan_hmhd_def by (rule ind_rules)+

lemma ind_scan_nmhd: "ind i (scan_nmhd remaining) i"
  unfolding scan_nmhd_def by (rule ind_rules)+

lemma ind_scan_url: "ind i (scan_url remaining) i"
  unfolding scan_url_def by (rule ind_rules)+

lemma ind_scan_urn: "ind i (scan_urn remaining) i"
  unfolding scan_urn_def by (rule ind_rules)+

lemma ind_scan_elst: "ind i (scan_elst remaining) i"
  unfolding scan_elst_def by (rule ind_rules ind_scan_elst_entries)+

section \<open>Containers keep the counter and the frame\<close>

lemma indo_Some: "ind i m j \<Longrightarrow> indo i (\<lambda>s. Some (m s)) j"
  by (simp add: ind_def indo_def)

lemma indoD:
  assumes "indo i m j" and "indent s = int i" and "m s = Some r"
  shows "r = Inl (e, s') \<Longrightarrow> 0 \<le> indent s'"
    and "r = Inr (x, s') \<Longrightarrow> indent s' = int j"
    and "r = Inr (x, s') \<Longrightarrow> frame s s'"
proof -
  from assms have c: "case r of Inl (e, s') \<Rightarrow> 0 \<le> indent s'
      | Inr (x, s') \<Rightarrow> indent s' = int j \<and> frame s s'"
    unfolding indo_def by blast
  show "r = Inl (e, s') \<Longrightarrow> 0 \<le> indent s'" using c by simp
  show "r = Inr (x, s') \<Longrightarrow> indent s' = int j" using c by simp
  show "r = Inr (x, s') \<Longrightarrow> frame s s'" using c by simp
qed

lemma scan_children_indent:
  assumes child: "\<And>t k. indo (Suc i) (child t k) (Suc i)"
    and run: "scan_children child chunkend s = Some r"
    and i: "indent s = int (Suc i)"
  shows "case r of Inl (e, s') \<Rightarrow> 0 \<le> indent s'
         | Inr (x, s') \<Rightarrow> indent s' = int (Suc i) \<and> frame s s'"
proof -
  define P where "P = (\<lambda>(child :: dispatch) (chunkend :: int) (s :: isobmff) (r :: unit res).
      (\<forall>t k. indo (Suc i) (child t k) (Suc i)) \<longrightarrow> indent s = int (Suc i) \<longrightarrow>
        (case r of Inl (e, s') \<Rightarrow> 0 \<le> indent s'
         | Inr (x, s') \<Rightarrow> indent s' = int (Suc i) \<and> frame s s'))"
  have "P child chunkend s r"
  proof (rule scan_children.raw_induct [where P = P, OF _ run], goal_cases)
    case (1 loop child chunkend s r)
    show ?case
      unfolding P_def
    proof (intro impI)
      assume child: "\<forall>t k. indo (Suc i) (child t k) (Suc i)" and i: "indent s = int (Suc i)"
      note tell = indD [OF ind_file_tell [of "Suc i"] i]
      show "case r of Inl (e, s') \<Rightarrow> 0 \<le> indent s'
            | Inr (x, s') \<Rightarrow> indent s' = int (Suc i) \<and> frame s s'"
      proof (cases "file_tell s")
        case (Inl q)
        obtain e s0 where q: "q = (e, s0)" by (cases q)
        with Inl tell(1) have "0 \<le> indent s0" by simp
        with 1(2) Inl q show ?thesis by auto
      next
        case (Inr q)
        obtain p s0 where q: "q = (p, s0)" by (cases q)
        with Inr tell(2) have s0: "indent s0 = int (Suc i)" by simp
        from Inr q tell(3) have f0: "frame s s0" by simp
        show ?thesis
        proof (cases "p < chunkend")
          case False
          with 1(2) Inr q s0 f0 show ?thesis by auto
        next
          case True
          note box = indD [OF ind_scan_box [of "Suc i"] s0]
          show ?thesis
          proof (cases "scan_box s0")
            case (Inl b)
            obtain e s1 where b: "b = (e, s1)" by (cases b)
            with Inl box(1) have "0 \<le> indent s1" by simp
            moreover from Inl b have "e \<noteq> EOFError" using scan_box_not_EOFError by auto
            ultimately show ?thesis using 1(2) Inr q True Inl b by auto
          next
            case (Inr b)
            obtain boxsize boxtype skip s1 where b: "b = ((boxsize, boxtype, skip), s1)"
              by (cases b) auto
            define s2 where "s2 = iprint ''Box Found: %s of length %u'' [PStr boxtype, PInt boxsize] s1"
            from Inr b box(2) have s1: "indent s1 = int (Suc i)" by simp
            then have s2: "indent s2 = int (Suc i)" by (simp add: s2_def iprint_def)
            from s1 have "frame s1 s2" unfolding s2_def by (intro frame_iprint) simp
            moreover from Inr b box(3) have "frame s0 s1" by simp
            ultimately have f2: "frame s s2" using f0 by (blast intro: frame_trans)
            from 1(2) \<open>file_tell s = Inr q\<close> q True Inr b
            have step: "(case child boxtype skip s2 of None \<Rightarrow> None | Some (Inl e) \<Rightarrow> Some (Inl e)
                          | Some (Inr (u, s3)) \<Rightarrow> loop child chunkend s3) = Some r"
              by (simp add: s2_def)
            then obtain c where c: "child boxtype skip s2 = Some c"
              by (cases "child boxtype skip s2") auto
            from child have ch: "indo (Suc i) (child boxtype skip) (Suc i)" by blast
            show ?thesis
            proof (cases c)
              case (Inl ee)
              obtain e s3 where ee: "ee = (e, s3)" by (cases ee)
              from indoD(1) [OF ch s2 c] Inl ee have "0 \<le> indent s3" by simp
              with step c Inl ee show ?thesis by auto
            next
              case (Inr uu)
              obtain u s3 where uu: "uu = (u, s3)" by (cases uu)
              from indoD(2) [OF ch s2 c] Inr uu have s3: "indent s3 = int (Suc i)" by simp
              from indoD(3) [OF ch s2 c] Inr uu f2 have f3: "frame s s3"
                by (blast intro: frame_trans)
              from step c Inr uu have "loop child chunkend s3 = Some r" by simp
              from 1(1) [OF this] child s3
              have "case r of Inl (e, s') \<Rightarrow> 0 \<le> indent s'
                    | Inr (x, s') \<Rightarrow> indent s' = int (Suc i) \<and> frame s3 s'"
                unfolding P_def by blast
              with f3 show ?thesis
                by (auto split: sum.splits intro: frame_trans)
            qed
          qed
        qed
      qed
    qed
  qed
  with child i show ?thesis unfolding P_def by blast
qed

lemma container_tail:
  assumes loop: "case c of Inl (e, s') \<Rightarrow> 0 \<le> indent s'
         | Inr (x, s') \<Rightarrow> indent s' = int (Suc i) \<and> frame s0 s'"
    and fr: "frame s s0"
    and r: "(case Some c of None \<Rightarrow> None | Some (Inl e) \<Rightarrow> Some (Inl e)
             | Some (Inr (u, s1)) \<Rightarrow> Some (lift ipop s1)) = Some r"
  shows "case r of Inl (e, s') \<Rightarrow> 0 \<le> indent s'
         | Inr (x, s') \<Rightarrow> indent s' = int i \<and> frame s s'"
proof (cases c)
  case (Inl ee)
  with loop r show ?thesis by auto
next
  case (Inr uu)
  obtain u s1 where uu: "uu = (u, s1)" by (cases uu)
  with loop Inr have s1: "indent s1 = int (Suc i)" and f1: "frame s0 s1" by simp_all
  from s1 have "indent (ipop s1) = int i" by (simp add: ipop_def)
  moreover from fr f1 frame_ipop [of s1] have "frame s (ipop s1)"
    by (blast intro: frame_trans)
  ultimately show ?thesis using r Inr uu by (auto simp: lift_def)
qed

lemma indo_scan_container:
  assumes child: "\<And>t k. indo (Suc i) (child t k) (Suc i)"
  shows "indo i (scan_container child remaining) i"
  unfolding indo_def
proof (intro allI impI)
  fix s :: isobmff and r
  assume i: "indent s = int i" and run: "scan_container child remaining s = Some r"
  have push: "indent (ipush s) = int (Suc i)" using i by (simp add: ipush_def)
  note tell = indD [OF ind_file_tell push]
  show "case r of Inl (e, s') \<Rightarrow> 0 \<le> indent s'
        | Inr (x, s') \<Rightarrow> indent s' = int i \<and> frame s s'"
  proof (cases "file_tell (ipush s)")
    case (Inl q)
    obtain e s0 where q: "q = (e, s0)" by (cases q)
    with Inl tell(1) have "0 \<le> indent s0" by simp
    with run Inl q show ?thesis by (auto simp: scan_container_def)
  next
    case (Inr q)
    obtain p s0 where q: "q = (p, s0)" by (cases q)
    with Inr tell(2) have s0: "indent s0 = int (Suc i)" by simp
    from Inr q tell(3) frame_ipush [of s] have f0: "frame s s0"
      by (auto intro: frame_trans)
    from run Inr q obtain c where c: "scan_children child (p + remaining) s0 = Some c"
      by (cases "scan_children child (p + remaining) s0") (auto simp: scan_container_def)
    from run Inr q c
    have "(case Some c of None \<Rightarrow> None | Some (Inl e) \<Rightarrow> Some (Inl e)
             | Some (Inr (u, s1)) \<Rightarrow> Some (lift ipop s1)) = Some r"
      by (simp add: scan_container_def)
    from container_tail [OF scan_children_indent [OF child c s0] f0 this]
    show ?thesis .
  qed
qed

lemma indo_skip_child: "indo i (skip_child t k) i"
  unfolding skip_child_def by (rule indo_Some [OF ind_file_seek_cur])

lemma indo_scan_udta: "indo i (scan_udta remaining) i"
  unfolding scan_udta_def by (rule indo_scan_container [OF indo_skip_child])

lemma indo_scan_stbl: "indo i (scan_stbl remaining) i"
  unfolding scan_stbl_def by (rule indo_scan_container [OF indo_skip_child])

lemma indo_if: "indo i a j \<Longrightarrow> indo i b j \<Longrightarrow> indo i (if c then a else b) j"
  by simp

lemma indo_seek: "indo i (\<lambda>s. Some (file_seek_cur k s)) i"
  by (rule indo_Some [OF ind_file_seek_cur])

lemma indo_edts_child: "indo i (edts_child t k) i"
proof -
  have "edts_child t k = (if t = ''elst'' then (\<lambda>s. Some (scan_elst k s))
          else (\<lambda>s. Some (file_seek_cur k s)))"
    by (auto simp: edts_child_def fun_eq_iff)
  then show ?thesis
    by (simp only:) (rule indo_if indo_seek indo_Some ind_scan_elst)+
qed

lemma indo_scan_edts: "indo i (scan_edts remaining) i"
  unfolding scan_edts_def by (rule indo_scan_container [OF indo_edts_child])

lemma indo_dref_child: "indo i (dref_child t k) i"
proof -
  have "dref_child t k = (if t = ''url '' then (\<lambda>s. Some (scan_url k s))
          else if t = ''urn '' then (\<lambda>s. Some (scan_urn k s))
          else (\<lambda>s. Some (file_seek_cur k s)))"
    by (auto simp: dref_child_def fun_eq_iff)
  then show ?thesis
    by (simp only:) (rule indo_if indo_seek indo_Some ind_scan_url ind_scan_urn)+
qed

lemma ind_dref_prefix:
  "ind (Suc i) (bind file_tell (\<lambda>p.
           let chunkend = p + remaining in
           bind (scan_fullbox remaining) (\<lambda>(version, flags, skip).
           bind (lift (iprint ''version = %s'' [PInt version])) (\<lambda>_.
           bind (lift (iprint ''flags = 0x%x'' [PInt flags])) (\<lambda>_.
           bind scan_uint32 (\<lambda>entryCount.
           bind (lift (iprint ''entryCount = %d'' [PInt entryCount])) (\<lambda>_.
           ret chunkend))))))) (Suc i)"
  by (rule ind_rules)+

lemma indo_scan_dref: "indo i (scan_dref remaining) i"
  unfolding indo_def
proof (intro allI impI)
  fix s :: isobmff and r
  assume i: "indent s = int i" and run: "scan_dref remaining s = Some r"
  have push: "indent (ipush s) = int (Suc i)" using i by (simp add: ipush_def)
  define prefix where "prefix = bind file_tell (\<lambda>p.
           let chunkend = p + remaining in
           bind (scan_fullbox remaining) (\<lambda>(version, flags, skip).
           bind (lift (iprint ''version = %s'' [PInt version])) (\<lambda>_.
           bind (lift (iprint ''flags = 0x%x'' [PInt flags])) (\<lambda>_.
           bind scan_uint32 (\<lambda>entryCount.
           bind (lift (iprint ''entryCount = %d'' [PInt entryCount])) (\<lambda>_.
           ret chunkend))))))"
  have run': "(case prefix (ipush s) of Inl e \<Rightarrow> Some (Inl e)
      | Inr (chunkend, s0) \<Rightarrow>
          (case scan_children dref_child chunkend s0 of
             None \<Rightarrow> None
           | Some (Inl e) \<Rightarrow> Some (Inl e)
           | Some (Inr (_, s1)) \<Rightarrow> Some (lift ipop s1))) = Some r"
    using run unfolding scan_dref_def prefix_def .
  note pre = indD [OF ind_dref_prefix [of i remaining, folded prefix_def] push]
  show "case r of Inl (e, s') \<Rightarrow> 0 \<le> indent s'
        | Inr (x, s') \<Rightarrow> indent s' = int i \<and> frame s s'"
  proof (cases "prefix (ipush s)")
    case (Inl q)
    obtain e s0 where q: "q = (e, s0)" by (cases q)
    with Inl pre(1) have "0 \<le> indent s0" by simp
    with run' Inl q show ?thesis by auto
  next
    case (Inr q)
    obtain chunkend s0 where q: "q = (chunkend, s0)" by (cases q)
    with Inr pre(2) have s0: "indent s0 = int (Suc i)" by simp
    from Inr q pre(3) frame_ipush [of s] have f0: "frame s s0"
      by (auto intro: frame_trans)
    from run' Inr q obtain c where c: "scan_children dref_child chunkend s0 = Some c"
      by (cases "scan_children dref_child chunkend s0") auto
    from run' Inr q c
    have "(case Some c of None \<Rightarrow> None | Some (Inl e) \<Rightarrow> Some (Inl e)
             | Some (Inr (u, s1)) \<Rightarrow> Some (lift ipop s1)) = Some r"
      by simp
    from container_tail [OF scan_children_indent [OF indo_dref_child c s0] f0 this]
    show ?thesis .
  qed
qed

lemma indo_dinf_child: "indo i (dinf_child t k) i"
proof -
  have "dinf_child t k = (if t = ''dref'' then scan_dref k
          else (\<lambda>s. Some (file_seek_cur k s)))"
    by (auto simp: dinf_child_def fun_eq_iff)
  then show ?thesis
    by (simp only:) (rule indo_if indo_seek indo_scan_dref)+
qed

lemma indo_scan_dinf: "indo i (scan_dinf remaining) i"
  unfolding scan_dinf_def by (rule indo_scan_container [OF indo_dinf_child])

lemma indo_minf_child: "indo i (minf_child t k) i"
proof -
  have "minf_child t k =
     (if t = ''dinf'' then scan_dinf k
      else if t = ''stbl'' then scan_stbl k
      else if t = ''vmhd'' then (\<lambda>s. Some (scan_vmhd k s))
      else if t = ''smhd'' then (\<lambda>s. Some (scan_smhd k s))
      else if t = ''hmhd'' then (\<lambda>s. Some (scan_hmhd k s))
      else if t = ''nmhd'' then (\<lambda>s. Some (scan_nmhd k s))
      else (\<lambda>s. Some (file_seek_cur k s)))"
    by (auto simp: minf_child_def fun_eq_iff)
  then show ?thesis
    by (simp only:) (rule indo_if indo_seek indo_scan_dinf indo_scan_stbl indo_Some
        ind_scan_vmhd ind_scan_smhd ind_scan_hmhd ind_scan_nmhd)+
qed

lemma indo_scan_minf: "indo i (scan_minf remaining) i"
  unfolding scan_minf_def by (rule indo_scan_container [OF indo_minf_child])

lemma indo_mdia_child: "indo i (mdia_child t k) i"
proof -
  have "mdia_child t k =
     (if t = ''mdhd'' then (\<lambda>s. Some (scan_mdhd k s))
      else if t = ''hdlr'' then (\<lambda>s. Some (scan_hdlr k s))
      else if t = ''minf'' then scan_minf k
      else (\<lambda>s. Some (file_seek_cur k s)))"
    by (auto simp: mdia_child_def fun_eq_iff)
  then show ?thesis
    by (simp only:) (rule indo_if indo_seek indo_scan_minf indo_Some ind_scan_mdhd ind_scan_hdlr)+
qed

lemma indo_scan_mdia: "indo i (scan_mdia remaining) i"
  unfolding scan_mdia_def by (rule indo_scan_container [OF indo_mdia_child])

lemma indo_trak_child: "indo i (trak_child t k) i"
proof -
  have "trak_child t k =
     (if t = ''tkhd'' then (\<lambda>s. Some (scan_tkhd k s))
      else if t = ''mdia'' then scan_mdia k
      else if t = ''edts'' then scan_edts k
      else if t = ''udta'' then scan_udta k
      else (\<lambda>s. Some (file_seek_cur k s)))"
    by (auto simp: trak_child_def fun_eq_iff)
  then show ?thesis
    by (simp only:) (rule indo_if indo_seek indo_scan_mdia indo_scan_edts indo_scan_udta
        indo_Some ind_scan_tkhd)+
qed

lemma indo_scan_trak: "indo i (scan_trak remaining) i"
  unfolding scan_trak_def by (rule indo_scan_container [OF indo_trak_child])

lemma indo_moov_child: "indo i (moov_child t k) i"
proof -
  have "moov_child t k =
     (if t = ''mvhd'' then (\<lambda>s. Some (scan_mvhd k s))
      else if t = ''trak'' then scan_trak k
      else if t = ''udta'' then scan_udta k
      else (\<lambda>s. Some (file_seek_cur k s)))"
    by (auto simp: moov_child_def fun_eq_iff)
  then show ?thesis
    by (simp only:) (rule indo_if indo_seek indo_scan_trak indo_scan_udta indo_Some ind_scan_mvhd)+
qed

lemma indo_scan_moov: "indo i (scan_moov remaining) i"
  unfolding scan_moov_def by (rule indo_scan_container [OF indo_moov_child])

lemma indo_toplevel_child: "indo i (toplevel_child t k) i"
proof -
  have "toplevel_child t k =
     (if t = ''ftyp'' then (\<lambda>s. Some (scan_ftyp k s))
      else if t = ''moov'' then scan_moov k
      else (\<lambda>s. Some (file_seek_cur k s)))"
    by (auto simp: toplevel_child_def fun_eq_iff)
  then show ?thesis
    by (simp only:) (rule indo_if indo_seek indo_scan_moov indo_Some ind_scan_ftyp)+
qed

lemma balancedI:
  assumes "\<And>i remaining. indo i (decoder remaining) i"
  shows "balanced decoder"
  unfolding balanced_def
proof (intro allI impI)
  fix remaining :: int and s :: isobmff and r :: "unit res"
  assume nonneg: "0 \<le> indent s" and run: "decoder remaining s = Some r"
  then have i: "indent s = int (nat (indent s))" by simp
  note d = indoD [OF assms [of "nat (indent s)" remaining] i run]
  show "case r of Inl (e, s') \<Rightarrow> 0 \<le> indent s' | Inr (u, s') \<Rightarrow> indent s' = indent s"
  proof (cases r)
    case (Inl p)
    then show ?thesis using d(1) [of "fst p" "snd p"] by (cases p) simp
  next
    case (Inr p)
    then show ?thesis using d(2) [of "fst p" "snd p"] nonneg by (cases p) simp
  qed
qed

lemma scan_boxes_indent:
  assumes run: "scan_boxes numBoxes s = Some r" and i: "indent s = int i"
  shows "case r of Inl (e, s') \<Rightarrow> 0 \<le> indent s' | Inr (x, s') \<Rightarrow> indent s' = int i"
proof -
  define P where "P = (\<lambda>(numBoxes :: int) (s :: isobmff) (r :: int res).
      indent s = int i \<longrightarrow>
        (case r of Inl (e, s') \<Rightarrow> 0 \<le> indent s' | Inr (x, s') \<Rightarrow> indent s' = int i))"
  have "P numBoxes s r"
  proof (rule scan_boxes.raw_induct [where P = P, OF _ run], goal_cases)
    case (1 loop numBoxes s r)
    show ?case
      unfolding P_def
    proof (intro impI)
      assume i: "indent s = int i"
      note tell = indD [OF ind_file_tell [of i] i]
      show "case r of Inl (e, s') \<Rightarrow> 0 \<le> indent s' | Inr (x, s') \<Rightarrow> indent s' = int i"
      proof (cases "file_tell s")
        case (Inl q)
        obtain e s0 where q: "q = (e, s0)" by (cases q)
        with Inl tell(1) have "0 \<le> indent s0" by simp
        with 1(2) Inl q show ?thesis by auto
      next
        case (Inr q)
        obtain p s0 where q: "q = (p, s0)" by (cases q)
        with Inr tell(2) have s0: "indent s0 = int i" by simp
        show ?thesis
        proof (cases "p < filesize s0")
          case False
          with 1(2) Inr q s0 show ?thesis by auto
        next
          case True
          note box = indD [OF ind_scan_box [of i] s0]
          show ?thesis
          proof (cases "scan_box s0")
            case (Inl b)
            obtain e s1 where b: "b = (e, s1)" by (cases b)
            with Inl box(1) have "0 \<le> indent s1" by simp
            moreover from Inl b have "e \<noteq> EOFError" using scan_box_not_EOFError by auto
            ultimately show ?thesis using 1(2) Inr q True Inl b by auto
          next
            case (Inr b)
            obtain boxsize boxtype skip s1 where b: "b = ((boxsize, boxtype, skip), s1)"
              by (cases b) auto
            define s2 where "s2 = iprint ''Box Found: %s of length %u'' [PStr boxtype, PInt boxsize] s1"
            from Inr b box(2) have "indent s1 = int i" by simp
            then have s2: "indent s2 = int i" by (simp add: s2_def iprint_def)
            from 1(2) \<open>file_tell s = Inr q\<close> q True Inr b
            have step: "(case toplevel_child boxtype skip s2 of None \<Rightarrow> None
                          | Some (Inl e) \<Rightarrow> Some (Inl e)
                          | Some (Inr (u, s3)) \<Rightarrow> loop (numBoxes + 1) (print_plain [] s3)) = Some r"
              by (simp add: s2_def)
            then obtain c where c: "toplevel_child boxtype skip s2 = Some c"
              by (cases "toplevel_child boxtype skip s2") auto
            note ch = indo_toplevel_child [of i boxtype skip]
            show ?thesis
            proof (cases c)
              case (Inl ee)
              obtain e s3 where ee: "ee = (e, s3)" by (cases ee)
              from indoD(1) [OF ch s2 c] Inl ee have "0 \<le> indent s3" by simp
              with step c Inl ee show ?thesis by auto
            next
              case (Inr uu)
              obtain u s3 where uu: "uu = (u, s3)" by (cases uu)
              from indoD(2) [OF ch s2 c] Inr uu have "indent s3 = int i" by simp
              then have s3: "indent (print_plain [] s3) = int i" by (simp add: print_plain_def)
              from step c Inr uu have "loop (numBoxes + 1) (print_plain [] s3) = Some r" by simp
              from 1(1) [OF this] s3 show ?thesis unfolding P_def by blast
            qed
          qed
        qed
      qed
    qed
  qed
  with i show ?thesis unfolding P_def by blast
qed

lemma scan_indent:
  assumes run: "scan s = Some r" and i: "indent s = int i"
  shows "case r of Inl (e, s') \<Rightarrow> 0 \<le> indent s' | Inr (x, s') \<Rightarrow> indent s' = int i"
proof -
  show ?thesis
  proof (cases "fileobj s")
    case None
    with run i show ?thesis by (auto simp: scan_def)
  next
    case (Some b)
    note seek = indD [OF ind_file_seek_set [of i 0] i]
    show ?thesis
    proof (cases "file_seek_set 0 s")
      case (Inl q)
      obtain e s0 where q: "q = (e, s0)" by (cases q)
      with Inl seek(1) have "0 \<le> indent s0" by simp
      with run Some Inl q show ?thesis by (auto simp: scan_def)
    next
      case (Inr q)
      obtain u s0 where q: "q = (u, s0)" by (cases q)
      with Inr seek(2) have s0: "indent s0 = int i" by simp
      from run Some Inr q obtain c where c: "scan_boxes 0 s0 = Some c"
        by (cases "scan_boxes 0 s0") (auto simp: scan_def)
      note loop = scan_boxes_indent [OF c s0]
      show ?thesis
      proof (cases c)
        case (Inl ee)
        with loop run Some \<open>file_seek_set 0 s = Inr q\<close> q c show ?thesis
          by (auto simp: scan_def)
      next
        case (Inr nn)
        obtain n s1 where nn: "nn = (n, s1)" by (cases nn)
        with loop Inr have "indent s1 = int i" by simp
        then have "indent (iprint ''%d boxes scanned'' [PInt n] s1) = int i"
          by (simp add: iprint_def)
        with run Some \<open>file_seek_set 0 s = Inr q\<close> q c Inr nn show ?thesis
          by (auto simp: scan_def lift_def)
      qed
    qed
  qed
qed

lemma balanced_scan: "balanced (\<lambda>remaining. scan)"
  unfolding balanced_def
proof (intro allI impI)
  fix remaining :: int and s :: isobmff and r :: "unit res"
  assume nonneg: "0 \<le> indent s" and run: "scan s = Some r"
  then have i: "indent s = int (nat (indent s))" by simp
  from scan_indent [OF run i] nonneg
  show "case r of Inl (e, s') \<Rightarrow> 0 \<le> indent s' | Inr (u, s') \<Rightarrow> indent s' = indent s"
    by (cases r) auto
qed

section \<open>The top-level walk of a valid file\<close>



section \<open>Bytes consumed by the header decoders\<close>

lemmas seeks_ok = file_seek_cur_ok [where n = 10, simplified] file_seek_cur_ok [where n = 24, simplified]
  file_seek_cur_ok [where n = 8, simplified] file_seek_cur_ok [where n = 12, simplified]




section \<open>Reads of a computed length\<close>

lemma file_read_int_ok:
  assumes "fileobj s = Some b" and "0 \<le> n" and "n \<le> 2 ^ 63 - 1"
    and "int (pos s) + n \<le> int (length b)"
  shows "file_read n s = Inr (take (nat n) (drop (pos s) b), s\<lparr>pos := pos s + nat n\<rparr>)"
proof -
  from assms have "nat n \<le> length b - pos s" by linarith
  with assms show ?thesis
    by (simp add: file_read_def Let_def min_def)
qed

section \<open>What a resolved header says about the cursor\<close>






section \<open>The end of the file at a header boundary\<close>

lemma scan_box_at_end_of_file:
  assumes "fileobj s = Some b" and "pos s = length b"
  shows "scan_box s = Inl (StructError, s)"
  using assms
  by (simp add: scan_box_def bind_def scan_uint32_def file_read_def unpack_def Let_def)

lemma scan_children_at_end_of_file:
  assumes "fileobj s = Some b" and "pos s = length b" and "int (pos s) < chunkend"
  shows "scan_children child chunkend s = Some (Inl (StructError, s))"
proof -
  from assms(1) have "file_tell s = Inr (int (pos s), s)"
    by (simp add: file_tell_def)
  with assms(3) scan_box_at_end_of_file [OF assms(1,2)] show ?thesis
    by (subst scan_children.simps) simp
qed

section \<open>The claims\<close>

subsection \<open>C1: where the cursor is after a box has been dispatched\<close>




subsection \<open>C2: a box that overruns its enclosing range\<close>




subsection \<open>C3: the three size encodings of a box header\<close>

text \<open>
  Claim C3. Whenever \<open>scan_box\<close> resolves a header (the file holds the 8 bytes of size
  and type, and the 8 bytes of the extended size when the size field is 1), it returns:
  for a size field of 1, the 64-bit extended size \<open>S\<close> as the total size and \<open>S - 16\<close> as
  the payload length; for a size field of 0, the total size \<open>filesize - position\<close>, where
  the position is the one before the size field, and that total minus 8 as the payload
  length; for any other size field, the field itself as the total size and the field
  minus 8 as the payload length. The cursor is left behind the header.
\<close>

theorem scan_box_sizes:
  assumes "fileobj s = Some b"
    and "size32 = be_uint (take 4 (drop (pos s) b))"
    and "pos s + (if size32 = 1 then 16 else 8) \<le> length b"
  shows "scan_box s =
          (let tag = take 4 (drop (pos s + 4) b);
               S = be_uint (take 8 (drop (pos s + 8) b));
               total = filesize s - int (pos s)
           in if size32 = 1 then Inr ((S, tag, S - 16), s\<lparr>pos := pos s + 16\<rparr>)
              else if size32 = 0 then Inr ((total, tag, total - 8), s\<lparr>pos := pos s + 8\<rparr>)
              else Inr ((size32, tag, size32 - 8), s\<lparr>pos := pos s + 8\<rparr>))"
proof -
  let ?s4 = "s\<lparr>pos := pos s + 4\<rparr>" and ?s8 = "s\<lparr>pos := pos s + 8\<rparr>"
  from assms have room: "pos s + 8 \<le> length b"
    by (simp split: if_splits)
  have size: "scan_uint32 s = Inr (size32, ?s4)"
    using assms(1,2) room by (simp add: scan_uint32_ok)
  have tag: "scan_fourcc ?s4 = Inr (take 4 (drop (pos s + 4) b), ?s8)"
    using assms(1) room by (simp add: scan_fourcc_ok)
  show ?thesis
  proof (cases "size32 = 1")
    case True
    with assms(3) have "pos s + 16 \<le> length b" by simp
    with assms(1) have "scan_uint64 ?s8
        = Inr (be_uint (take 8 (drop (pos s + 8) b)), s\<lparr>pos := pos s + 16\<rparr>)"
      by (simp add: scan_uint64_ok)
    with size tag True show ?thesis
      by (simp add: scan_box_def bind_def ret_def Let_def)
  next
    case False
    have "file_tell ?s8 = Inr (int (pos s) + 8, ?s8)"
      using assms(1) by (simp add: file_tell_ok)
    with size tag False show ?thesis
      by (simp add: scan_box_def bind_def ret_def Let_def)
  qed
qed

text \<open>
  The three encodings on concrete headers: an ordinary box of 20 bytes; a box whose size
  field is 1 and whose extended size is 24; a box whose size field is 0 in a file of 12
  bytes, which therefore has total size 12 and 4 bytes of payload.
\<close>

theorem scan_box_sizes_witness:
  "scan_box (open_file ftyp_file ISOBMFF)
     = Inr ((20, ''ftyp'', 12), (open_file ftyp_file ISOBMFF)\<lparr>pos := 8\<rparr>) \<and>
   scan_box (open_file extended_file ISOBMFF)
     = Inr ((24, ''free'', 8), (open_file extended_file ISOBMFF)\<lparr>pos := 16\<rparr>) \<and>
   scan_box (open_file rest_of_file ISOBMFF)
     = Inr ((12, ''mdat'', 4), (open_file rest_of_file ISOBMFF)\<lparr>pos := 8\<rparr>)"
proof -
  let ?a = "open_file ftyp_file ISOBMFF"
  have a1: "fileobj ?a = Some ftyp_file" by (simp add: open_file_def)
  have a2: "20 = be_uint (take 4 (drop (pos ?a) ftyp_file))" by code_simp
  have a3: "pos ?a + (if (20::int) = 1 then 16 else 8) \<le> length ftyp_file" by code_simp
  have a4: "(let tag = take 4 (drop (pos ?a + 4) ftyp_file);
               S = be_uint (take 8 (drop (pos ?a + 8) ftyp_file));
               total = filesize ?a - int (pos ?a)
           in if (20::int) = 1 then Inr ((S, tag, S - 16), ?a\<lparr>pos := pos ?a + 16\<rparr>)
              else if (20::int) = 0 then Inr ((total, tag, total - 8), ?a\<lparr>pos := pos ?a + 8\<rparr>)
              else Inr ((20, tag, 20 - 8), ?a\<lparr>pos := pos ?a + 8\<rparr>))
        = (Inr ((20, ''ftyp'', 12), ?a\<lparr>pos := 8\<rparr>) :: (int \<times> string \<times> int) res)"
    by code_simp
  let ?b = "open_file extended_file ISOBMFF"
  have b1: "fileobj ?b = Some extended_file" by (simp add: open_file_def)
  have b2: "1 = be_uint (take 4 (drop (pos ?b) extended_file))" by code_simp
  have b3: "pos ?b + (if (1::int) = 1 then 16 else 8) \<le> length extended_file" by code_simp
  have b4: "(let tag = take 4 (drop (pos ?b + 4) extended_file);
               S = be_uint (take 8 (drop (pos ?b + 8) extended_file));
               total = filesize ?b - int (pos ?b)
           in if (1::int) = 1 then Inr ((S, tag, S - 16), ?b\<lparr>pos := pos ?b + 16\<rparr>)
              else if (1::int) = 0 then Inr ((total, tag, total - 8), ?b\<lparr>pos := pos ?b + 8\<rparr>)
              else Inr ((1, tag, 1 - 8), ?b\<lparr>pos := pos ?b + 8\<rparr>))
        = (Inr ((24, ''free'', 8), ?b\<lparr>pos := 16\<rparr>) :: (int \<times> string \<times> int) res)"
    by code_simp
  let ?c = "open_file rest_of_file ISOBMFF"
  have c1: "fileobj ?c = Some rest_of_file" by (simp add: open_file_def)
  have c2: "0 = be_uint (take 4 (drop (pos ?c) rest_of_file))" by code_simp
  have c3: "pos ?c + (if (0::int) = 1 then 16 else 8) \<le> length rest_of_file" by code_simp
  have c4: "(let tag = take 4 (drop (pos ?c + 4) rest_of_file);
               S = be_uint (take 8 (drop (pos ?c + 8) rest_of_file));
               total = filesize ?c - int (pos ?c)
           in if (0::int) = 1 then Inr ((S, tag, S - 16), ?c\<lparr>pos := pos ?c + 16\<rparr>)
              else if (0::int) = 0 then Inr ((total, tag, total - 8), ?c\<lparr>pos := pos ?c + 8\<rparr>)
              else Inr ((0, tag, 0 - 8), ?c\<lparr>pos := pos ?c + 8\<rparr>))
        = (Inr ((12, ''mdat'', 4), ?c\<lparr>pos := 8\<rparr>) :: (int \<times> string \<times> int) res)"
    by code_simp
  show ?thesis
    using scan_box_sizes [OF a1 a2 a3] scan_box_sizes [OF b1 b2 b3] scan_box_sizes [OF c1 c2 c3]
    by (simp only: a4 b4 c4)
qed

subsection \<open>C4: what version 1 adds to the header decoders\<close>




subsection \<open>C5: the end of the file at a header boundary\<close>

text \<open>
  Claim C5. An end of file met by a fixed-width read aborts the decoding of the current
  box, and the exception propagates; but when the file ends exactly where a walker expects
  the next box header, the walker is to take that as the end of its walk, not as an
  error. The loops of the script are written for that: each wraps \<^verbatim>\<open>scan_box\<close> in
  \<^verbatim>\<open>try ... except EOFError: break\<close>. The top-level loop keeps the promise through its
  loop condition. Inside a container whose declared end lies beyond the end of the file
  it is not kept: the short read makes \<^verbatim>\<open>struct.unpack\<close> raise \<^verbatim>\<open>struct.error\<close>, which
  is not an \<^verbatim>\<open>EOFError\<close>, so the handler does not catch it. On \<open>truncated_moov\<close>, where
  the file ends at offset 8, the boundary of the first child of \<^verbatim>\<open>moov\<close>, the scan ends
  with \<open>StructError\<close> raised at that boundary, after announcing the \<^verbatim>\<open>moov\<close> box and
  without printing the final count. The lemmas \<open>scan_box_not_EOFError\<close> and
  \<open>scan_children_at_end_of_file\<close> say the same of every file: a header read never
  raises \<open>EOFError\<close>, and a container walk that meets the end of the file before the end
  of its range raises \<open>StructError\<close>.
\<close>

theorem truncated_container_raises:
  "(case scan (open_file truncated_moov ISOBMFF) of
      Some (Inl (e, s')) \<Rightarrow>
        e = StructError \<and> pos s' = 8 \<and> int (pos s') = filesize s' \<and>
        out s' = [Indented 0 ''Box Found: %s of length %u'' [PStr ''moov'', PInt 16]]
    | _ \<Rightarrow> False)"
  by code_simp

subsection \<open>C6: the name field of \<^verbatim>\<open>hdlr\<close>\<close>

text \<open>
  Claim C6, as stated: for every \<^verbatim>\<open>hdlr\<close> box the decoder takes as the name all bytes
  from the cursor up to the declared end of the box, and the cursor finishes exactly at
  the end of the box. It fails for a box whose declared end lies beyond the end of the
  file: in \<open>truncated_hdlr_file\<close> the \<^verbatim>\<open>hdlr\<close> box starts at offset 24 and declares 40
  bytes, so it ends at offset 64, but the file has 60 bytes. The decoder returns with the
  name \<^verbatim>\<open>abcd\<close> and the cursor at 60, not at 64. (The walk of \<^verbatim>\<open>mdia\<close> then looks for the
  next header at offset 60 and the scan ends with \<open>StructError\<close>.)
\<close>

theorem hdlr_truncated_stops_short:
  "(case scan_box ((open_file truncated_hdlr_file ISOBMFF)\<lparr>pos := 24\<rparr>) of
      Inl _ \<Rightarrow> False
    | Inr ((boxsize, boxtype, skip), s1) \<Rightarrow>
        boxsize = 40 \<and> boxtype = ''hdlr'' \<and> skip = 32 \<and>
        (case scan_hdlr skip s1 of
           Inl _ \<Rightarrow> False
         | Inr (_, s2) \<Rightarrow>
             last (out s2) = Indented 1 ''name = %s'' [PStr ''abcd''] \<and>
             pos s2 = 60 \<and> int (pos s2) \<noteq> 24 + boxsize)) \<and>
   (case scan (open_file truncated_hdlr_file ISOBMFF) of
      Some (Inl (e, s')) \<Rightarrow>
        e = StructError \<and> pos s' = 60 \<and>
        last (out s') = Indented 4 ''name = %s'' [PStr ''abcd'']
    | _ \<Rightarrow> False)"
  by code_simp

text \<open>
  Claim C6, amended: for every \<^verbatim>\<open>hdlr\<close> box whose declared payload holds the 24 bytes of
  fixed fields and ends within the file, the decoder returns, the name it prints is all
  the bytes from the end of the fixed fields up to the declared end of the box, whether or
  not one of them is zero, and the cursor finishes exactly at the end of the box. (A
  payload shorter than 24 bytes makes the length handed to \<^verbatim>\<open>read\<close> negative, and a
  negative length reads up to the end of the file; the statement leaves that case out.)
\<close>

theorem hdlr_name_to_box_end:
  assumes "fileobj s = Some b" and "24 \<le> remaining"
    and "int (pos s) + remaining \<le> int (length b)" and "int (length b) < 2 ^ 63"
  shows "\<exists>s'. scan_hdlr remaining s = Inr ((), s') \<and>
           int (pos s') = int (pos s) + remaining \<and>
           last (out s') = Indented (indent s + 1) ''name = %s''
             [PStr (take (nat (remaining - 24)) (drop (pos s + 24) b))]"
proof -
  have room: "pos s + 24 \<le> length b" using assms by linarith
  have diff: "int (pos s) + remaining - (int (pos s) + 24) = remaining - 24" by simp
  have small: "remaining - 24 \<le> 2 ^ 63 - 1" using assms by linarith
  show ?thesis
    using assms room small
    by (simp add: scan_hdlr_def bind_def reads_ok seeks_ok ret_def lift_def Let_def
        ipush_def ipop_def iprint_def diff file_read_int_ok)
      (simp add: add.commute)
qed

text \<open>
  In \<open>hdlr_file\<close> the payload of the \<^verbatim>\<open>hdlr\<close> box starts at offset 32 and has 32 bytes;
  the name is the 8 bytes \<^verbatim>\<open>abcdefgh\<close>, none of them zero, and the cursor ends at 64.
\<close>

theorem hdlr_name_to_box_end_witness:
  "fileobj ((open_file hdlr_file ISOBMFF)\<lparr>pos := 32\<rparr>) = Some hdlr_file \<and>
   (24 :: int) \<le> 32 \<and>
   int (pos ((open_file hdlr_file ISOBMFF)\<lparr>pos := 32\<rparr>)) + 32 \<le> int (length hdlr_file) \<and>
   (case scan_hdlr 32 ((open_file hdlr_file ISOBMFF)\<lparr>pos := 32\<rparr>) of
      Inr (_, s') \<Rightarrow>
        pos s' = 64 \<and> last (out s') = Indented 1 ''name = %s'' [PStr ''abcdefgh'']
    | Inl _ \<Rightarrow> False)"
proof -
  let ?s = "(open_file hdlr_file ISOBMFF)\<lparr>pos := 32\<rparr>"
  have h1: "fileobj ?s = Some hdlr_file" by (simp add: open_file_def)
  have h2: "(24 :: int) \<le> 32" by simp
  have h3: "int (pos ?s) + 32 \<le> int (length hdlr_file)" by code_simp
  have h4: "int (length hdlr_file) < 2 ^ 63" by code_simp
  have name: "take 8 (drop 56 hdlr_file) = ''abcdefgh''" by code_simp
  have ind: "indent (open_file hdlr_file ISOBMFF) = 0" by (simp add: open_file_def ISOBMFF_def)
  from hdlr_name_to_box_end [OF h1 h2 h3 h4] h1 h3 show ?thesis
    by (auto simp: name ind)
qed

subsection \<open>C7: the top-level boxes of a valid file partition it\<close>



subsection \<open>C8: the \<^verbatim>\<open>ftyp\<close> scenario\<close>

text \<open>
  Claim C8. On the file that consists of one \<^verbatim>\<open>ftyp\<close> box with size field 20, major
  brand \<^verbatim>\<open>isom\<close>, minor version 512 and the compatible brand \<^verbatim>\<open>mp41\<close>, the header
  resolves to total size 20 and payload length 12; the \<^verbatim>\<open>ftyp\<close> decoder prints the major
  brand \<^verbatim>\<open>isom\<close>, the minor version 512 and exactly one compatible brand, \<^verbatim>\<open>mp41\<close>; it
  stops at the end of the box, which is the end of the file; and its counter
  \<^verbatim>\<open>remaining\<close> is 0 when the loop over the brands ends.
\<close>

theorem ftyp_scenario:
  "(case scan_box (open_file ftyp_file ISOBMFF) of
      Inl _ \<Rightarrow> False
    | Inr ((boxsize, boxtype, skip), s1) \<Rightarrow>
        boxsize = 20 \<and> boxtype = ''ftyp'' \<and> skip = 12 \<and>
        (case scan_ftyp skip s1 of
           Inl _ \<Rightarrow> False
         | Inr (_, s2) \<Rightarrow>
             out s2 = [Indented 1 ''major brand: %s'' [PStr ''isom''],
                       Indented 1 ''minor version: %u'' [PInt 512],
                       Indented 1 ''compat brand: %s'' [PStr ''mp41'']] \<and>
             int (pos s2) = boxsize \<and> pos s2 = length ftyp_file) \<and>
        (case bind scan_fourcc (\<lambda>_. bind scan_uint32 (\<lambda>_. scan_ftyp_brands (skip - 8))) s1 of
           Inl _ \<Rightarrow> False
         | Inr (remaining, _) \<Rightarrow> remaining = 0))"
  by code_simp

subsection \<open>C9: the balance ratio of \<^verbatim>\<open>smhd\<close>\<close>

text \<open>
  Claim C9. Fixed-point fields are printed as their raw integers, and only the \<^verbatim>\<open>smhd\<close>
  decoder also prints a ratio, the balance divided by 256. The source marks the balance
  as an 8.8 fixed-point number (\<^verbatim>\<open># FP 8.8\<close>), whose value is the raw integer divided by
  256, but the expression it prints is \<^verbatim>\<open>balance/16.0\<close>. On \<open>smhd_file\<close>, whose balance
  field \<^verbatim>\<open>0x0100\<close> encodes 1, the line printed for the balance carries the raw value 256
  and the ratio 16, where a division by 256 gives 1.
\<close>

theorem smhd_balance_ratio:
  "(case scan (open_file smhd_file ISOBMFF) of
      Some (Inr (_, s')) \<Rightarrow>
        out s' ! 7 = Indented 5 ''balance = %d / %.3f'' [PInt 256, PFloat 16] \<and>
        (16 :: rat) = 256 / 16 \<and> (16 :: rat) \<noteq> 256 / 256
    | _ \<Rightarrow> False)"
  by code_simp

subsection \<open>C10: the indentation counter\<close>

text \<open>
  Claim C10. The indentation counter starts at 0 and never becomes negative, and every
  decoder method (\<^verbatim>\<open>scan_ftyp\<close>, \<^verbatim>\<open>scan_moov\<close>, \<^verbatim>\<open>scan_mvhd\<close>, \<^verbatim>\<open>scan_trak\<close>,
  \<^verbatim>\<open>scan_tkhd\<close>, \<^verbatim>\<open>scan_mdia\<close>, \<^verbatim>\<open>scan_mdhd\<close>, \<^verbatim>\<open>scan_hdlr\<close>, \<^verbatim>\<open>scan_minf\<close>,
  \<^verbatim>\<open>scan_vmhd\<close>, \<^verbatim>\<open>scan_smhd\<close>, \<^verbatim>\<open>scan_hmhd\<close>, \<^verbatim>\<open>scan_nmhd\<close>, \<^verbatim>\<open>scan_dinf\<close>,
  \<^verbatim>\<open>scan_url_\<close>, \<^verbatim>\<open>scan_urn_\<close>, \<^verbatim>\<open>scan_dref\<close>, \<^verbatim>\<open>scan_stbl\<close>, \<^verbatim>\<open>scan_edts\<close>,
  \<^verbatim>\<open>scan_elst\<close>, \<^verbatim>\<open>scan_udta\<close>), and \<^verbatim>\<open>scan\<close> itself, is balanced: entered with a
  non-negative counter, it returns with the counter at its value on entry, and when it
  raises instead the counter is still non-negative.
\<close>

theorem indentation_balanced:
  "indent ISOBMFF = 0 \<and>
   balanced (\<lambda>remaining s. Some (scan_ftyp remaining s)) \<and>
   balanced scan_moov \<and>
   balanced (\<lambda>remaining s. Some (scan_mvhd remaining s)) \<and>
   balanced scan_trak \<and>
   balanced (\<lambda>remaining s. Some (scan_tkhd remaining s)) \<and>
   balanced scan_mdia \<and>
   balanced (\<lambda>remaining s. Some (scan_mdhd remaining s)) \<and>
   balanced (\<lambda>remaining s. Some (scan_hdlr remaining s)) \<and>
   balanced scan_minf \<and>
   balanced (\<lambda>remaining s. Some (scan_vmhd remaining s)) \<and>
   balanced (\<lambda>remaining s. Some (scan_smhd remaining s)) \<and>
   balanced (\<lambda>remaining s. Some (scan_hmhd remaining s)) \<and>
   balanced (\<lambda>remaining s. Some (scan_nmhd remaining s)) \<and>
   balanced scan_dinf \<and>
   balanced (\<lambda>remaining s. Some (scan_url remaining s)) \<and>
   balanced (\<lambda>remaining s. Some (scan_urn remaining s)) \<and>
   balanced scan_dref \<and>
   balanced scan_stbl \<and>
   balanced scan_edts \<and>
   balanced (\<lambda>remaining s. Some (scan_elst remaining s)) \<and>
   balanced scan_udta \<and>
   balanced (\<lambda>remaining. scan)"
  by (intro conjI balancedI indo_Some ind_scan_ftyp indo_scan_moov ind_scan_mvhd indo_scan_trak
      ind_scan_tkhd indo_scan_mdia ind_scan_mdhd ind_scan_hdlr indo_scan_minf ind_scan_vmhd
      ind_scan_smhd ind_scan_hmhd ind_scan_nmhd indo_scan_dinf ind_scan_url ind_scan_urn
      indo_scan_dref indo_scan_stbl indo_scan_edts ind_scan_elst indo_scan_udta balanced_scan)
    (simp add: ISOBMFF_def)

text \<open>
  On the one-box file the whole scan returns, and the counter is back at its initial
  value.
\<close>

theorem indentation_balanced_witness:
  "0 \<le> indent (open_file ftyp_file ISOBMFF) \<and>
   (case scan (open_file ftyp_file ISOBMFF) of
      Some (Inr (u, s')) \<Rightarrow> indent s' = indent (open_file ftyp_file ISOBMFF)
    | _ \<Rightarrow> False)"
proof -
  have nonneg: "0 \<le> indent (open_file ftyp_file ISOBMFF)"
    by (simp add: open_file_def ISOBMFF_def)
  have "case scan (open_file ftyp_file ISOBMFF) of Some (Inr (u, s')) \<Rightarrow> True | _ \<Rightarrow> False"
    by code_simp
  then obtain u s' where r: "scan (open_file ftyp_file ISOBMFF) = Some (Inr (u, s'))"
    by (auto split: option.splits sum.splits)
  from indentation_balanced have "balanced (\<lambda>remaining. scan)" by simp
  from this [unfolded balanced_def, rule_format, OF nonneg r]
  show ?thesis using nonneg r by simp
qed

end
